theory Spec2Isabelle
  imports Complex_Main
begin

section \<open>Python outcomes: exceptions as values\<close>

text \<open>
  The frost-risk module is Python. A call either returns a value or raises; the model
  returns \<open>Inr v\<close> or \<open>Inl e\<close>, where \<open>e\<close> is the class of the exception raised.
\<close>

datatype error = ValueError | TypeError | AttributeError | ZeroDivisionError | OverflowError

definition ebind :: "error + 'a \<Rightarrow> ('a \<Rightarrow> error + 'b) \<Rightarrow> error + 'b" where
  "ebind m f = (case m of Inl e \<Rightarrow> Inl e | Inr x \<Rightarrow> f x)"

section \<open>Binary64 arithmetic\<close>

text \<open>
  A Python float is an IEEE 754 binary64 number. A value of the arithmetic is a finite
  double (given by the real number it denotes), an infinity or a NaN; the sign of a zero
  is not tracked, as no operation used here depends on it. The result of \<open>+\<close>, \<open>-\<close>,
  \<open>*\<close>, \<open>/\<close> and \<open>sqrt\<close> is the exact result rounded to the nearest double, ties to the
  even significand, and an infinity once the exact result reaches \<open>2^1024 - 2^970\<close>.
  None of these raises, but \<open>/\<close> on a zero divisor does (ZeroDivisionError).

  The spacing of the doubles around \<open>x\<close> is \<open>quantum x\<close>: \<open>2^(e - 52)\<close> for
  \<open>2^e \<le> |x| < 2^(e + 1)\<close>, and \<open>2^-1074\<close> below \<open>2^-1022\<close>.
\<close>

datatype fl = Fin real | PInf | NInf | NaN

definition binade :: "real \<Rightarrow> int" where
  "binade x = (if x = 0 then - 1022 else max \<lfloor>log 2 \<bar>x\<bar>\<rfloor> (- 1022))"

definition quantum :: "real \<Rightarrow> real" where
  "quantum x = 2 powi (binade x - 52)"

definition round_even :: "real \<Rightarrow> int" where
  \<comment> \<open>the nearest integer, a tie going to the even one\<close>
  "round_even y =
     (let n = \<lfloor>y\<rfloor>; r = y - of_int n
      in if r < 1 / 2 then n else if 1 / 2 < r then n + 1 else if even n then n else n + 1)"

definition rnd_fin :: "real \<Rightarrow> real" where
  "rnd_fin x = of_int (round_even (x / quantum x)) * quantum x"

definition overflow_bound :: real where
  "overflow_bound = 2 ^ 1024 - 2 ^ 970"

definition rnd :: "real \<Rightarrow> fl" where
  "rnd x =
     (if overflow_bound \<le> \<bar>x\<bar> then (if 0 < x then PInf else NInf) else Fin (rnd_fin x))"

definition lit :: "real \<Rightarrow> real" where
  \<comment> \<open>the double that a decimal literal of the source denotes\<close>
  "lit x = rnd_fin x"

definition is_double :: "real \<Rightarrow> bool" where
  \<comment> \<open>the real number is a finite double\<close>
  "is_double x = (rnd_fin x = x \<and> \<bar>x\<bar> < overflow_bound)"

definition eta :: real where
  \<comment> \<open>half the spacing of the subnormal doubles\<close>
  "eta = 2 powi (- 1075)"

definition u53 :: real where
  \<comment> \<open>the relative error of one rounding\<close>
  "u53 = 1 / 2 ^ 53"

definition finite_within :: "int \<Rightarrow> fl \<Rightarrow> bool" where
  \<comment> \<open>a finite double of magnitude at most \<open>n\<close>\<close>
  "finite_within n v = (\<exists>r. v = Fin r \<and> \<bar>r\<bar> \<le> of_int n)"

fun fneg :: "fl \<Rightarrow> fl" where
  "fneg (Fin x) = Fin (- x)"
| "fneg PInf = NInf"
| "fneg NInf = PInf"
| "fneg NaN = NaN"

fun fadd :: "fl \<Rightarrow> fl \<Rightarrow> fl" where
  "fadd (Fin x) (Fin y) = rnd (x + y)"
| "fadd NaN v = NaN"
| "fadd v NaN = NaN"
| "fadd PInf NInf = NaN"
| "fadd NInf PInf = NaN"
| "fadd PInf v = PInf"
| "fadd v PInf = PInf"
| "fadd NInf v = NInf"
| "fadd v NInf = NInf"

definition fsub :: "fl \<Rightarrow> fl \<Rightarrow> fl" where
  "fsub x y = fadd x (fneg y)"

fun fmul :: "fl \<Rightarrow> fl \<Rightarrow> fl" where
  "fmul (Fin x) (Fin y) = rnd (x * y)"
| "fmul NaN v = NaN"
| "fmul v NaN = NaN"
| "fmul (Fin x) PInf = (if x = 0 then NaN else if 0 < x then PInf else NInf)"
| "fmul (Fin x) NInf = (if x = 0 then NaN else if 0 < x then NInf else PInf)"
| "fmul PInf (Fin y) = (if y = 0 then NaN else if 0 < y then PInf else NInf)"
| "fmul NInf (Fin y) = (if y = 0 then NaN else if 0 < y then NInf else PInf)"
| "fmul PInf PInf = PInf"
| "fmul NInf NInf = PInf"
| "fmul PInf NInf = NInf"
| "fmul NInf PInf = NInf"

fun fdiv :: "fl \<Rightarrow> fl \<Rightarrow> fl" where
  \<comment> \<open>for a divisor that is not zero\<close>
  "fdiv (Fin x) (Fin y) = rnd (x / y)"
| "fdiv NaN v = NaN"
| "fdiv v NaN = NaN"
| "fdiv (Fin x) PInf = Fin 0"
| "fdiv (Fin x) NInf = Fin 0"
| "fdiv PInf (Fin y) = (if 0 \<le> y then PInf else NInf)"
| "fdiv NInf (Fin y) = (if 0 \<le> y then NInf else PInf)"
| "fdiv PInf v = NaN"
| "fdiv NInf v = NaN"

fun fl_le :: "fl \<Rightarrow> fl \<Rightarrow> bool" where
  \<comment> \<open>the order of the floats; a NaN compares with nothing\<close>
  "fl_le (Fin x) (Fin y) = (x \<le> y)"
| "fl_le NaN v = False"
| "fl_le v NaN = False"
| "fl_le NInf v = True"
| "fl_le v PInf = True"
| "fl_le v NInf = False"
| "fl_le PInf v = False"

definition py_div :: "fl \<Rightarrow> fl \<Rightarrow> error + fl" where
  \<comment> \<open>float \<open>/\<close>: ZeroDivisionError on a zero divisor\<close>
  "py_div x y = (if y = Fin 0 then Inl ZeroDivisionError else Inr (fdiv x y))"

definition py_sqrt :: "fl \<Rightarrow> error + fl" where
  \<comment> \<open>\<open>math.sqrt\<close>: ValueError (math domain error) on a negative argument\<close>
  "py_sqrt v =
     (case v of
        Fin x \<Rightarrow> if x < 0 then Inl ValueError else Inr (rnd (sqrt x))
      | PInf \<Rightarrow> Inr PInf
      | NInf \<Rightarrow> Inl ValueError
      | NaN \<Rightarrow> Inr NaN)"

text \<open>
  The functions \<open>exp\<close>, \<open>log\<close>, \<open>atan\<close> and \<open>pow\<close> come from the C library of the
  platform, which promises no particular rounding: on finite arguments they are
  parameters, the record \<open>libm\<close>. The wrappers of the module \<open>math\<close> add the special
  values and raise where Python raises: \<open>math.exp\<close> raises OverflowError (math range
  error) when the library returns an infinity for a finite argument, \<open>math.log\<close> raises
  ValueError (math domain error) unless its argument is positive. \<open>cr_libm\<close> is the
  correctly rounded library; it stands for the platform's in the worked values.
\<close>

record libm =
  m_exp :: "real \<Rightarrow> fl"
  m_log :: "real \<Rightarrow> real"
  m_atan :: "real \<Rightarrow> real"
  m_pow15 :: "real \<Rightarrow> fl"

definition cr_libm :: libm where
  "cr_libm =
     \<lparr>m_exp = (\<lambda>x. rnd (exp x)),
      m_log = (\<lambda>x. rnd_fin (ln x)),
      m_atan = (\<lambda>x. rnd_fin (arctan x)),
      m_pow15 = (\<lambda>x. rnd (x powr (3 / 2)))\<rparr>"

definition py_exp :: "libm \<Rightarrow> fl \<Rightarrow> error + fl" where
  "py_exp L v =
     (case v of
        Fin x \<Rightarrow>
          (case m_exp L x of
             Fin r \<Rightarrow> Inr (Fin r)
           | NaN \<Rightarrow> Inl ValueError
           | _ \<Rightarrow> Inl OverflowError)
      | PInf \<Rightarrow> Inr PInf
      | NInf \<Rightarrow> Inr (Fin 0)
      | NaN \<Rightarrow> Inr NaN)"

definition py_log :: "libm \<Rightarrow> fl \<Rightarrow> error + fl" where
  "py_log L v =
     (case v of
        Fin x \<Rightarrow> if x \<le> 0 then Inl ValueError else Inr (Fin (m_log L x))
      | PInf \<Rightarrow> Inr PInf
      | NInf \<Rightarrow> Inl ValueError
      | NaN \<Rightarrow> Inr NaN)"

definition py_atan :: "libm \<Rightarrow> fl \<Rightarrow> fl" where
  "py_atan L v =
     (case v of
        Fin x \<Rightarrow> Fin (m_atan L x)
      | PInf \<Rightarrow> Fin (rnd_fin (pi / 2))
      | NInf \<Rightarrow> Fin (- rnd_fin (pi / 2))
      | NaN \<Rightarrow> NaN)"

text \<open>
  A float raised to the power \<open>1.5\<close>: zero for a zero base; for a negative base Python 3
  returns a complex number, whose value is not tracked; OverflowError when the library
  returns an infinity.
\<close>

datatype pynum = Float fl | NonReal

definition py_pow_1_5 :: "libm \<Rightarrow> real \<Rightarrow> error + pynum" where
  "py_pow_1_5 L x =
     (if x = 0 then Inr (Float (Fin 0))
      else if x < 0 then Inr NonReal
      else case m_pow15 L x of
             Fin r \<Rightarrow> Inr (Float (Fin r))
           | NaN \<Rightarrow> Inl ValueError
           | _ \<Rightarrow> Inl OverflowError)"

fun pn_add :: "pynum \<Rightarrow> pynum \<Rightarrow> pynum" where
  "pn_add (Float x) (Float y) = Float (fadd x y)"
| "pn_add _ _ = NonReal"

fun pn_sub :: "pynum \<Rightarrow> pynum \<Rightarrow> pynum" where
  "pn_sub (Float x) (Float y) = Float (fsub x y)"
| "pn_sub _ _ = NonReal"

fun pn_mul :: "pynum \<Rightarrow> pynum \<Rightarrow> pynum" where
  "pn_mul (Float x) (Float y) = Float (fmul x y)"
| "pn_mul _ _ = NonReal"

text \<open>
  What the properties ask of the library: an exponential is never negative, and finite
  for an argument up to 600; the logarithm of \<open>1.0\<close> is \<open>0.0\<close>; the logarithm of a
  double up to \<open>1.0\<close> lies between \<open>-1100\<close> and 0; an arc tangent is at most 2 in
  magnitude; the exponential is monotone; the power \<open>x ** 1.5\<close> is at most 1024 for
  \<open>x\<close> up to 100.
\<close>

definition exp_range :: "libm \<Rightarrow> bool" where
  "exp_range L = (\<forall>x. m_exp L x = PInf \<or> (\<exists>r. m_exp L x = Fin r \<and> 0 \<le> r))"

definition exp_finite :: "libm \<Rightarrow> bool" where
  "exp_finite L = (\<forall>x. x \<le> 600 \<longrightarrow> (\<exists>r. m_exp L x = Fin r))"

definition log_one :: "libm \<Rightarrow> bool" where
  "log_one L = (m_log L 1 = 0)"

definition log_range :: "libm \<Rightarrow> bool" where
  "log_range L =
     (\<forall>x. 2 powi (- 1074) \<le> x \<and> x \<le> 1 \<longrightarrow> - 1100 \<le> m_log L x \<and> m_log L x \<le> 0)"

definition atan_range :: "libm \<Rightarrow> bool" where
  "atan_range L = (\<forall>x. \<bar>m_atan L x\<bar> \<le> 2)"

definition exp_monotone :: "libm \<Rightarrow> bool" where
  "exp_monotone L = (\<forall>x y. x \<le> y \<longrightarrow> fl_le (m_exp L x) (m_exp L y))"

definition pow_range :: "libm \<Rightarrow> bool" where
  "pow_range L =
     (\<forall>x. 0 < x \<and> x \<le> 100 \<longrightarrow> (\<exists>r. m_pow15 L x = Fin r \<and> 0 \<le> r \<and> r \<le> 1024))"

section \<open>Strings\<close>

text \<open>
  Strings are lists of code points below 256. On these, \<open>str.lower()\<close> maps \<open>A\<close>..\<open>Z\<close>
  and the capital letters of Latin-1 (192..222 except the multiplication sign 215) to the
  code point 32 higher, and leaves every other character unchanged.
\<close>

definition lower_char :: "char \<Rightarrow> char" where
  "lower_char c =
     (let n = (of_char c :: nat)
      in if (65 \<le> n \<and> n \<le> 90) \<or> (192 \<le> n \<and> n \<le> 222 \<and> n \<noteq> 215)
         then char_of (n + 32) else c)"

definition lower :: "string \<Rightarrow> string" where
  "lower s = map lower_char s"

section \<open>JSON documents and the builtins applied to them\<close>

text \<open>
  The raw document is what \<open>json\<close> decoding produces: \<open>None\<close>, booleans, integers,
  floats, strings, lists and dictionaries. A dictionary is an association list that
  holds each key once, read with \<open>map_of\<close>; the key order is the insertion order.
\<close>

datatype json =
    JNull
  | JBool bool
  | JInt int
  | JFloat real
  | JStr string
  | JArr "json list"
  | JObj "(string \<times> json) list"

fun py_get :: "json \<Rightarrow> string \<Rightarrow> json \<Rightarrow> error + json" where
  \<comment> \<open>\<open>obj.get(key, default)\<close>: only a dictionary has the method\<close>
  "py_get (JObj kvs) key dflt = Inr (case map_of kvs key of None \<Rightarrow> dflt | Some v \<Rightarrow> v)"
| "py_get _ key dflt = Inl AttributeError"

fun py_iter :: "json \<Rightarrow> error + json list" where
  \<comment> \<open>the items a \<open>for\<close> loop visits: a string yields its characters, a dictionary its keys\<close>
  "py_iter (JArr xs) = Inr xs"
| "py_iter (JStr s) = Inr (map (\<lambda>c. JStr [c]) s)"
| "py_iter (JObj kvs) = Inr (map (\<lambda>kv. JStr (fst kv)) kvs)"
| "py_iter _ = Inl TypeError"

fun truthy :: "json \<Rightarrow> bool" where
  "truthy JNull = False"
| "truthy (JBool b) = b"
| "truthy (JInt i) = (i \<noteq> 0)"
| "truthy (JFloat r) = (r \<noteq> 0)"
| "truthy (JStr s) = (s \<noteq> [])"
| "truthy (JArr xs) = (xs \<noteq> [])"
| "truthy (JObj kvs) = (kvs \<noteq> [])"

definition digit_char :: "nat \<Rightarrow> char" where
  "digit_char d = char_of (48 + d)"

fun str_nat :: "nat \<Rightarrow> string" where
  "str_nat n = (if n < 10 then [digit_char n] else str_nat (n div 10) @ [digit_char (n mod 10)])"

declare str_nat.simps [simp del]

definition str_int :: "int \<Rightarrow> string" where
  "str_int i = (if i < 0 then CHR ''-'' # str_nat (nat (- i)) else str_nat (nat i))"

text \<open>
  \<open>str(v)\<close>, as an f-string and \<open>str()\<close> apply it. The text of a float, a list or a
  dictionary is the parameter \<open>str_other\<close>; so is, below, the reading \<open>float_of_str\<close> of
  a string by \<open>float()\<close>, with \<open>None\<close> where \<open>float()\<close> raises ValueError.
\<close>

fun py_str :: "(json \<Rightarrow> string) \<Rightarrow> json \<Rightarrow> string" where
  "py_str str_other (JStr s) = s"
| "py_str str_other JNull = ''None''"
| "py_str str_other (JBool b) = (if b then ''True'' else ''False'')"
| "py_str str_other (JInt i) = str_int i"
| "py_str str_other v = str_other v"

definition int_float_limit :: int where
  \<comment> \<open>the least magnitude of an integer that \<open>float()\<close> cannot convert: \<open>2^1024 - 2^970\<close>\<close>
  "int_float_limit = 2 ^ 1024 - 2 ^ 970"

fun py_float :: "(string \<Rightarrow> real option) \<Rightarrow> json \<Rightarrow> error + real" where
  "py_float float_of_str (JStr s) =
     (case float_of_str s of None \<Rightarrow> Inl ValueError | Some x \<Rightarrow> Inr x)"
| "py_float float_of_str (JInt i) =
     (if int_float_limit \<le> \<bar>i\<bar> then Inl OverflowError else Inr (of_int i))"
| "py_float float_of_str (JFloat r) = Inr r"
| "py_float float_of_str (JBool b) = Inr (if b then 1 else 0)"
| "py_float float_of_str _ = Inl TypeError"

text \<open>
  A reader of plain decimal literals, \<open>[+|-]digits[.digits]\<close> with at least one digit.
  On these strings it returns the number \<open>float()\<close> reads; it instantiates
  \<open>float_of_str\<close> in the worked examples.
\<close>

definition digit_val :: "char \<Rightarrow> nat option" where
  "digit_val c =
     (let n = (of_char c :: nat) in if 48 \<le> n \<and> n \<le> 57 then Some (n - 48) else None)"

fun digits_val :: "nat \<Rightarrow> string \<Rightarrow> nat option" where
  "digits_val acc [] = Some acc"
| "digits_val acc (c # cs) =
     (case digit_val c of None \<Rightarrow> None | Some d \<Rightarrow> digits_val (10 * acc + d) cs)"

definition unsigned_decimal :: "string \<Rightarrow> real option" where
  "unsigned_decimal s =
     (let ip = takeWhile (\<lambda>c. c \<noteq> CHR ''.'') s;
          rest = dropWhile (\<lambda>c. c \<noteq> CHR ''.'') s;
          fp = (if rest = [] then [] else tl rest)
      in if ip = [] \<and> fp = [] then None
         else case (digits_val 0 ip, digits_val 0 fp) of
                (Some i, Some f) \<Rightarrow> Some (real i + real f / 10 ^ length fp)
              | _ \<Rightarrow> None)"

definition parse_decimal :: "string \<Rightarrow> real option" where
  "parse_decimal s =
     (case s of
        [] \<Rightarrow> None
      | c # cs \<Rightarrow>
          if c = CHR ''-'' then map_option uminus (unsigned_decimal cs)
          else if c = CHR ''+'' then unsigned_decimal cs
          else unsigned_decimal s)"

section \<open>Timestamps\<close>

record datetime =
  dt_year :: nat
  dt_month :: nat
  dt_day :: nat
  dt_hour :: nat
  dt_minute :: nat
  dt_second :: nat

definition is_leap :: "nat \<Rightarrow> bool" where
  "is_leap y = (y mod 4 = 0 \<and> (y mod 100 \<noteq> 0 \<or> y mod 400 = 0))"

definition days_in_month :: "nat \<Rightarrow> nat \<Rightarrow> nat" where
  "days_in_month y m =
     (if m = 2 then (if is_leap y then 29 else 28)
      else if m = 4 \<or> m = 6 \<or> m = 9 \<or> m = 11 then 30 else 31)"

definition toordinal :: "datetime \<Rightarrow> int" where
  \<comment> \<open>days since 0001-01-01, that day being 1\<close>
  "toordinal d =
     (let y = int (dt_year d) - 1
      in y * 365 + y div 4 - y div 100 + y div 400
         + int (sum_list (map (days_in_month (dt_year d)) [1..<dt_month d]))
         + int (dt_day d))"

definition to_seconds :: "datetime \<Rightarrow> int" where
  "to_seconds d =
     toordinal d * 86400 + int (dt_hour d) * 3600 + int (dt_minute d) * 60 + int (dt_second d)"


definition num2 :: "string \<Rightarrow> nat option" where
  \<comment> \<open>a field of exactly two digits\<close>
  "num2 s = (if length s = 2 then digits_val 0 s else None)"

definition parse_isoformat_date :: "string \<Rightarrow> (nat \<times> nat \<times> nat) option" where
  \<comment> \<open>\<open>YYYY-MM-DD\<close>, ten characters\<close>
  "parse_isoformat_date s =
     (if length s = 10 \<and> s ! 4 = CHR ''-'' \<and> s ! 7 = CHR ''-'' then
        case (digits_val 0 (take 4 s), num2 (take 2 (drop 5 s)), num2 (drop 8 s)) of
          (Some y, Some m, Some d) \<Rightarrow> Some (y, m, d)
        | _ \<Rightarrow> None
      else None)"

definition parse_isoformat_time :: "string \<Rightarrow> (nat \<times> nat \<times> nat) option" where
  \<comment> \<open>\<open>HH\<close>, \<open>HH:MM\<close> or \<open>HH:MM:SS\<close>\<close>
  "parse_isoformat_time s =
     (case num2 (take 2 s) of
        None \<Rightarrow> None
      | Some h \<Rightarrow>
          if length s = 2 then Some (h, 0, 0)
          else if s ! 2 \<noteq> CHR '':'' then None
          else case num2 (take 2 (drop 3 s)) of
                 None \<Rightarrow> None
               | Some m \<Rightarrow>
                   if length s = 5 then Some (h, m, 0)
                   else if s ! 5 \<noteq> CHR '':'' then None
                   else case num2 (drop 6 s) of
                          None \<Rightarrow> None
                        | Some sec \<Rightarrow> Some (h, m, sec))"

text \<open>
  \<open>datetime.fromisoformat\<close> on the layout the module builds, \<open><date> <hour>:00\<close>: a
  ten-character date, any one separator character, and a time of day; then the range
  checks of the \<open>datetime\<close> constructor. \<open>None\<close> stands for ValueError. Strings with
  fractional seconds or a UTC offset, and the compact ISO layouts that later versions of
  the library also read, are outside this model and are reported as malformed.
\<close>

definition fromisoformat :: "string \<Rightarrow> datetime option" where
  "fromisoformat s =
     (case parse_isoformat_date (take 10 s) of
        None \<Rightarrow> None
      | Some (y, m, d) \<Rightarrow>
          (case (if length s = 10 then Some (0, 0, 0) else parse_isoformat_time (drop 11 s)) of
             None \<Rightarrow> None
           | Some (h, mi, sec) \<Rightarrow>
               if 1 \<le> y \<and> y \<le> 9999 \<and> 1 \<le> m \<and> m \<le> 12 \<and> 1 \<le> d \<and> d \<le> days_in_month y m
                  \<and> h \<le> 23 \<and> mi \<le> 59 \<and> sec \<le> 59
               then Some \<lparr>dt_year = y, dt_month = m, dt_day = d,
                          dt_hour = h, dt_minute = mi, dt_second = sec\<rparr>
               else None))"

definition pad :: "nat \<Rightarrow> nat \<Rightarrow> string" where
  \<comment> \<open>\<open>'%0wd'\<close>\<close>
  "pad w n = replicate (w - length (str_nat n)) CHR ''0'' @ str_nat n"

definition isoformat :: "datetime \<Rightarrow> string" where
  "isoformat d =
     pad 4 (dt_year d) @ ''-'' @ pad 2 (dt_month d) @ ''-'' @ pad 2 (dt_day d) @ ''T'' @
     pad 2 (dt_hour d) @ '':'' @ pad 2 (dt_minute d) @ '':'' @ pad 2 (dt_second d)"

section \<open>Record normaliser\<close>

text \<open>
  \<open>_get_cimis_value\<close> (\<open>mathModel.py\<close>, lines 140 to 158) and
  \<open>cimis_json_to_records\<close> (lines 161 to 215). The extraction visits the keys in
  order: a key that is absent or holds no dictionary is skipped; a dictionary whose
  \<open>Value\<close> is missing, null or the empty string ends the extraction with null; a
  \<open>Value\<close> that \<open>float()\<close> rejects with ValueError or TypeError is skipped; any
  other exception of \<open>float()\<close> is not caught.
\<close>

fun get_cimis_value :: "(string \<Rightarrow> real option) \<Rightarrow> json \<Rightarrow> string list \<Rightarrow> error + real option" where
  "get_cimis_value float_of_str rec [] = Inr None"
| "get_cimis_value float_of_str rec (key # keys) =
     ebind (py_get rec key JNull) (\<lambda>obj.
       case obj of
         JObj kvs \<Rightarrow>
           (let v = (case map_of kvs ''Value'' of None \<Rightarrow> JNull | Some x \<Rightarrow> x)
            in if v = JStr [] \<or> v = JNull then Inr None
               else case py_float float_of_str v of
                      Inr x \<Rightarrow> Inr (Some x)
                    | Inl e \<Rightarrow>
                        if e = ValueError \<or> e = TypeError
                        then get_cimis_value float_of_str rec keys
                        else Inl e)
       | _ \<Rightarrow> get_cimis_value float_of_str rec keys)"

definition zfill2 :: "string \<Rightarrow> string" where
  \<comment> \<open>\<open>s.zfill(2)\<close>: zeros go after a leading sign\<close>
  "zfill2 s =
     (case s of
        [] \<Rightarrow> ''00''
      | [c] \<Rightarrow> if c = CHR ''+'' \<or> c = CHR ''-'' then [c, CHR ''0''] else [CHR ''0'', c]
      | _ \<Rightarrow> s)"

record row =
  station :: json
  date :: json
  hour :: string
  timestamp :: datetime
  air_temp_c :: "real option"
  rel_hum :: "real option"

definition record_to_row ::
  "(string \<Rightarrow> real option) \<Rightarrow> (json \<Rightarrow> string) \<Rightarrow> json \<Rightarrow> json \<Rightarrow> error + row option" where
  \<comment> \<open>the body of the inner loop of \<open>cimis_json_to_records\<close>; \<open>None\<close> is \<open>continue\<close>\<close>
  "record_to_row float_of_str str_other provider rec =
     ebind (py_get rec ''Station'' JNull) (\<lambda>rec_station.
     ebind (if truthy rec_station then Inr rec_station
            else ebind (py_get provider ''Station'' (JObj []))
                   (\<lambda>ps. py_get ps ''StationNbr'' JNull)) (\<lambda>station.
     ebind (py_get rec ''Date'' JNull) (\<lambda>date_str.
     ebind (py_get rec ''Hour'' JNull) (\<lambda>hour_raw.
       if date_str = JNull \<or> hour_raw = JNull then Inr None
       else
         let hour_raw_str = py_str str_other hour_raw;
             hour_str = (if length hour_raw_str = 4 \<and> drop 2 hour_raw_str = ''00''
                         then take 2 hour_raw_str else zfill2 hour_raw_str);
             timestamp_str = py_str str_other date_str @ '' '' @ hour_str @ '':00''
         in case fromisoformat timestamp_str of
              None \<Rightarrow> Inr None
            | Some ts \<Rightarrow>
                ebind (get_cimis_value float_of_str rec [''HlyAirTmp'', ''hly-air-tmp''])
                  (\<lambda>air.
                ebind (get_cimis_value float_of_str rec [''HlyRelHum'', ''hly-rel-hum''])
                  (\<lambda>rh.
                  Inr (Some \<lparr>station = station, date = date_str, hour = hour_str,
                             timestamp = ts, air_temp_c = air, rel_hum = rh\<rparr>)))))))"

fun records_loop ::
  "(string \<Rightarrow> real option) \<Rightarrow> (json \<Rightarrow> string) \<Rightarrow> json \<Rightarrow> json list \<Rightarrow> error + row list" where
  "records_loop float_of_str str_other provider [] = Inr []"
| "records_loop float_of_str str_other provider (rec # recs) =
     ebind (record_to_row float_of_str str_other provider rec) (\<lambda>r.
     ebind (records_loop float_of_str str_other provider recs) (\<lambda>rows.
       Inr (case r of None \<Rightarrow> rows | Some x \<Rightarrow> x # rows)))"

fun providers_loop ::
  "(string \<Rightarrow> real option) \<Rightarrow> (json \<Rightarrow> string) \<Rightarrow> json list \<Rightarrow> error + row list" where
  "providers_loop float_of_str str_other [] = Inr []"
| "providers_loop float_of_str str_other (provider # providers) =
     ebind (py_get provider ''Records'' (JArr [])) (\<lambda>records.
     ebind (py_iter records) (\<lambda>recs.
     ebind (records_loop float_of_str str_other provider recs) (\<lambda>rows.
     ebind (providers_loop float_of_str str_other providers) (\<lambda>more.
       Inr (rows @ more)))))"

text \<open>
  The sort key is \<open>(station, timestamp)\<close>. Two stations compare as Python compares them:
  numbers (booleans included) by value, strings by code point, \<open>None\<close> only with itself;
  a pair of different kinds raises TypeError. Equal stations are ordered by timestamp.
  Stations that are lists or dictionaries are outside this comparison and are reported
  as TypeError. \<open>list.sort\<close> is stable and compares with \<open><\<close> only; it is modelled by a
  stable insertion sort, which makes no comparison on a list of fewer than two rows.
\<close>

datatype skey = KNone | KNum real | KStr string

fun station_key :: "json \<Rightarrow> error + skey" where
  "station_key JNull = Inr KNone"
| "station_key (JBool b) = Inr (KNum (if b then 1 else 0))"
| "station_key (JInt i) = Inr (KNum (of_int i))"
| "station_key (JFloat r) = Inr (KNum r)"
| "station_key (JStr s) = Inr (KStr s)"
| "station_key _ = Inl TypeError"

fun str_lt :: "string \<Rightarrow> string \<Rightarrow> bool" where
  "str_lt [] [] = False"
| "str_lt [] (b # bs) = True"
| "str_lt (a # as) [] = False"
| "str_lt (a # as) (b # bs) =
     ((of_char a :: nat) < of_char b \<or> (a = b \<and> str_lt as bs))"

definition key_lt :: "row \<Rightarrow> row \<Rightarrow> error + bool" where
  "key_lt x y =
     ebind (station_key (station x)) (\<lambda>kx.
     ebind (station_key (station y)) (\<lambda>ky.
       if kx = ky then Inr (to_seconds (timestamp x) < to_seconds (timestamp y))
       else case (kx, ky) of
              (KNum a, KNum b) \<Rightarrow> Inr (a < b)
            | (KStr a, KStr b) \<Rightarrow> Inr (str_lt a b)
            | _ \<Rightarrow> Inl TypeError))"

fun insert_row :: "row \<Rightarrow> row list \<Rightarrow> error + row list" where
  "insert_row x [] = Inr [x]"
| "insert_row x (y # ys) =
     ebind (key_lt y x) (\<lambda>before.
       if before then ebind (insert_row x ys) (\<lambda>r. Inr (y # r))
       else Inr (x # y # ys))"

fun sort_rows :: "row list \<Rightarrow> error + row list" where
  "sort_rows [] = Inr []"
| "sort_rows (x # xs) = ebind (sort_rows xs) (insert_row x)"

definition cimis_json_to_records ::
  "(string \<Rightarrow> real option) \<Rightarrow> (json \<Rightarrow> string) \<Rightarrow> json \<Rightarrow> error + row list" where
  "cimis_json_to_records float_of_str str_other raw_json =
     ebind (py_get raw_json ''Data'' (JObj [])) (\<lambda>data.
     ebind (py_get data ''Providers'' (JArr [])) (\<lambda>providers.
     ebind (py_iter providers) (\<lambda>ps.
     ebind (providers_loop float_of_str str_other ps) sort_rows)))"

section \<open>Physical quantities\<close>

text \<open>
  \<open>wet_bulb_temperature\<close>, \<open>blossom_temp\<close>, \<open>cooling_rate\<close> and
  \<open>dew_point_temperature\<close> (\<open>mathModel.py\<close>, lines 47 to 98), with the operations
  in the order Python evaluates them. The arguments are finite doubles; a decimal
  literal of the source stands for the double nearest to it.
\<close>

definition wet_bulb_temperature :: "libm \<Rightarrow> real \<Rightarrow> real \<Rightarrow> error + pynum" where
  "wet_bulb_temperature L temperature_c relative_humidity =
     ebind (py_sqrt (fadd (Fin relative_humidity) (Fin (lit 8.313659)))) (\<lambda>sq.
     ebind (py_pow_1_5 L relative_humidity) (\<lambda>pw.
       Inr (pn_sub
             (pn_add
               (pn_sub
                 (pn_add
                   (Float (fmul (Fin temperature_c)
                                (py_atan L (fmul (Fin (lit 0.151977)) sq))))
                   (Float (py_atan L (fadd (Fin temperature_c) (Fin relative_humidity)))))
                 (Float (py_atan L (fsub (Fin relative_humidity) (Fin (lit 1.676331))))))
               (pn_mul (pn_mul (Float (Fin (lit 0.00391838))) pw)
                       (Float (py_atan L (fmul (Fin (lit 0.023101)) (Fin relative_humidity))))))
             (Float (Fin (lit 4.686035))))))"

definition blossom_temp :: "libm \<Rightarrow> real \<Rightarrow> real \<Rightarrow> real \<Rightarrow> error + pynum" where
  "blossom_temp L temperature_c relative_humidity delta_orchard_c =
     ebind (wet_bulb_temperature L temperature_c relative_humidity) (\<lambda>wb.
       Inr (pn_sub (pn_sub (Float (Fin temperature_c)) (Float (Fin delta_orchard_c)))
                   (pn_sub (Float (Fin temperature_c)) wb)))"

definition cooling_rate :: "real \<Rightarrow> real \<Rightarrow> real \<Rightarrow> error + fl" where
  \<comment> \<open>a helper of the module that the frost-risk computation never calls\<close>
  "cooling_rate temperature_prev_c temperature_c delta_t_hours =
     (if delta_t_hours = 0 then Inr (Fin 0)
      else py_div (fsub (Fin temperature_prev_c) (Fin temperature_c)) (Fin delta_t_hours))"

definition dew_point_temperature :: "libm \<Rightarrow> real \<Rightarrow> real \<Rightarrow> error + fl" where
  "dew_point_temperature L temperature_c relative_humidity =
     (if relative_humidity \<le> 0 then Inr (Fin temperature_c)
      else
        let a = Fin (lit 17.27); b = Fin (lit 237.7)
        in ebind (py_div (fmul a (Fin temperature_c)) (fadd b (Fin temperature_c))) (\<lambda>q.
           ebind (py_div (Fin relative_humidity) (Fin 100)) (\<lambda>x.
           ebind (py_log L x) (\<lambda>l.
             let gamma = fadd q l
             in py_div (fmul b gamma) (fsub a gamma)))))"

section \<open>Stage damage model\<close>

text \<open>
  \<open>get_damage_parameters\<close>, \<open>damage_curve\<close> and \<open>estimate_damage_at_temperature\<close>
  (\<open>mathModel.py\<close>, lines 101 to 135).
\<close>

definition stage_names :: "string list" where
  \<comment> \<open>the keys of \<open>ALMOND_LT_CONFIG.stages\<close>, in insertion order\<close>
  "stage_names = [''pinkbud'', ''fullbloom'', ''petalfall'', ''fruitset'', ''smallnut'']"

definition get_damage_parameters :: "string \<Rightarrow> error + (real \<times> real)" where
  "get_damage_parameters stage =
     (let s = lower stage
      in if s = ''pinkbud'' then Inr (10, 15 / 10)
         else if s = ''fullbloom'' then Inr (9, 14 / 10)
         else if s = ''petalfall'' then Inr (8, 13 / 10)
         else if s = ''fruitset'' then Inr (7, 12 / 10)
         else if s = ''smallnut'' then Inr (6, 11 / 10)
         else Inl ValueError)"

definition damage_curve :: "libm \<Rightarrow> fl \<Rightarrow> string \<Rightarrow> error + fl" where
  \<comment> \<open>the pair \<open>(a, b)\<close> holds the decimal literals; the doubles are their roundings\<close>
  "damage_curve L temp_c stage =
     ebind (get_damage_parameters stage) (\<lambda>(a, b).
       let z = fadd (Fin (lit a)) (fmul (Fin (lit b)) temp_c)
       in ebind (py_exp L (fneg z)) (\<lambda>e. py_div (Fin 1) (fadd (Fin 1) e)))"


section \<open>Frost-risk computation\<close>



record stage_info =
  LT10_C :: real
  LT90_C :: real
  damage_prob :: fl

record record_out =
  out_station :: json
  out_timestamp :: string
  air_temperature_c :: "real option"
  relative_humidity :: "real option"
  dew_point_c :: "fl option"
  wet_bulb_c :: "pynum option"
  blossom_temp_c :: "pynum option"
  cooling_rate_c_per_hr :: real
  stages :: "(string \<times> stage_info) list"






section \<open>Risk classification\<close>


section \<open>Notions the properties are stated with\<close>

text \<open>
  The reading of numeric field extraction in the specification: a key is usable when it
  is present with a dictionary whose \<open>Value\<close> is non-empty and numerically parseable,
  and the result is the value of the first usable key, in the order listed.
\<close>

definition usable_value :: "(string \<Rightarrow> real option) \<Rightarrow> json \<Rightarrow> string \<Rightarrow> real option" where
  "usable_value float_of_str rec key =
     (case py_get rec key JNull of
        Inr (JObj kvs) \<Rightarrow>
          (case map_of kvs ''Value'' of
             None \<Rightarrow> None
           | Some v \<Rightarrow>
               if v = JStr [] \<or> v = JNull then None
               else case py_float float_of_str v of Inr x \<Rightarrow> Some x | Inl e \<Rightarrow> None)
      | _ \<Rightarrow> None)"

fun spec_first_usable_value ::
  "(string \<Rightarrow> real option) \<Rightarrow> json \<Rightarrow> string list \<Rightarrow> real option" where
  "spec_first_usable_value float_of_str rec [] = None"
| "spec_first_usable_value float_of_str rec (key # keys) =
     (case usable_value float_of_str rec key of
        Some x \<Rightarrow> Some x
      | None \<Rightarrow> spec_first_usable_value float_of_str rec keys)"

definition value_object :: "string \<Rightarrow> string \<Rightarrow> json" where
  \<comment> \<open>a named field of a raw record\<close>
  "value_object v unit = JObj [(''Value'', JStr v), (''Qc'', JStr ''V''), (''Unit'', JStr unit)]"

definition empty_first_key_record :: json where
  \<comment> \<open>the primary key carries an empty Value, the fallback key a number\<close>
  "empty_first_key_record =
     JObj [(''HlyAirTmp'', value_object [] ''(C)''),
           (''hly-air-tmp'', value_object ''5.00'' ''(C)'')]"

definition returns_early :: "(string \<Rightarrow> real option) \<Rightarrow> json \<Rightarrow> string \<Rightarrow> bool" where
  \<comment> \<open>the key holds a dictionary at which the extraction stops: its Value is missing,
     null or empty, or is an integer too large for \<open>float()\<close>\<close>
  "returns_early float_of_str rec key =
     (case py_get rec key JNull of
        Inr (JObj kvs) \<Rightarrow>
          (case map_of kvs ''Value'' of
             None \<Rightarrow> True
           | Some v \<Rightarrow> v = JStr [] \<or> v = JNull \<or> py_float float_of_str v = Inl OverflowError)
      | _ \<Rightarrow> False)"

definition unparseable_first_key_record :: json where
  \<comment> \<open>the primary key carries a Value that is no number, the fallback key a number\<close>
  "unparseable_first_key_record =
     JObj [(''HlyAirTmp'', value_object ''n/a'' ''(C)''),
           (''hly-air-tmp'', value_object ''5.00'' ''(C)'')]"

definition strictly_below :: "error + fl \<Rightarrow> error + fl \<Rightarrow> bool" where
  \<comment> \<open>both calls return a number, and the first is the smaller\<close>
  "strictly_below r1 r2 =
     (case (r1, r2) of (Inr (Fin p1), Inr (Fin p2)) \<Rightarrow> p1 < p2 | _ \<Rightarrow> False)"



definition hourly_record :: "string \<Rightarrow> string \<Rightarrow> string \<Rightarrow> (string \<times> json) list \<Rightarrow> json" where
  \<comment> \<open>a raw hourly record: station, date, hour code and named fields\<close>
  "hourly_record st d h named =
     JObj ([(''Station'', JStr st), (''Date'', JStr d), (''Hour'', JStr h)] @ named)"

definition document :: "json list \<Rightarrow> json" where
  \<comment> \<open>a document with one provider holding the given records\<close>
  "document recs =
     JObj [(''Data'', JObj [(''Providers'',
       JArr [JObj [(''Name'', JStr ''cimis''), (''Records'', JArr recs)]])])]"

definition single_record_doc :: json where
  "single_record_doc =
     document [hourly_record ''12'' ''2024-01-01'' ''0300''
       [(''HlyAirTmp'', value_object ''5.00'' ''(C)''),
        (''HlyRelHum'', value_object ''80'' ''(%)'')]]"




section \<open>Auxiliary facts\<close>


subsection \<open>Rounding to the nearest double\<close>

lemma round_even_of_int [simp]: "round_even (of_int n) = n"
  by (simp add: round_even_def)

lemma round_even_0 [simp]: "round_even 0 = 0"
  using round_even_of_int [of 0] by simp

lemma round_even_err: "\<bar>of_int (round_even y) - y\<bar> \<le> 1 / 2"
  unfolding round_even_def Let_def by (auto; linarith)

lemma round_even_ge_int: "of_int n \<le> y \<Longrightarrow> n \<le> round_even y"
  unfolding round_even_def Let_def by (auto simp: le_floor_iff; linarith)

lemma round_even_le_int: "y \<le> of_int n \<Longrightarrow> round_even y \<le> n"
proof -
  assume a: "y \<le> of_int n"
  show ?thesis
  proof (cases "y = of_int n")
    case True then show ?thesis by simp
  next
    case False
    then have "y < of_int n" using a by simp
    then have "\<lfloor>y\<rfloor> < n" by (simp add: floor_less_iff)
    then show ?thesis unfolding round_even_def Let_def by auto
  qed
qed

lemma round_even_mono: "x \<le> y \<Longrightarrow> round_even x \<le> round_even y"
proof -
  assume xy: "x \<le> y"
  have fl: "\<lfloor>x\<rfloor> \<le> \<lfloor>y\<rfloor>" using xy by (rule floor_mono)
  show ?thesis
  proof (cases "\<lfloor>x\<rfloor> = \<lfloor>y\<rfloor>")
    case True
    then show ?thesis using xy unfolding round_even_def Let_def by auto
  next
    case False
    then have "\<lfloor>x\<rfloor> + 1 \<le> \<lfloor>y\<rfloor>" using fl by simp
    moreover have "round_even x \<le> \<lfloor>x\<rfloor> + 1" unfolding round_even_def Let_def by auto
    moreover have "\<lfloor>y\<rfloor> \<le> round_even y" unfolding round_even_def Let_def by auto
    ultimately show ?thesis by linarith
  qed
qed

lemma round_even_minus: "round_even (- y) = - round_even y"
proof (cases "y = of_int \<lfloor>y\<rfloor>")
  case True
  then obtain n where "y = of_int n" by metis
  then show ?thesis by (simp flip: of_int_minus)
next
  case False
  then have fl: "\<lfloor>- y\<rfloor> = - \<lfloor>y\<rfloor> - 1"
    by (metis ceiling_altdef ceiling_def Ints_of_int of_int_floor_cancel diff_minus_eq_add minus_diff_eq floor_minus
         add.inverse_inverse add_diff_cancel_right' uminus_add_conv_diff)
  show ?thesis
    unfolding round_even_def Let_def fl using False by (auto; linarith?)
qed

lemma two_powi_pos [simp]: "0 < (2::real) powi k"
  by (simp add: power_int_def)

lemma two_powi_Suc: "(2::real) powi (k + 1) = 2 * 2 powi k"
  by (simp add: power_int_add)

lemma two_powi_mult: "(2::real) powi a * 2 powi b = 2 powi (a + b)"
  by (simp add: power_int_add)

lemma quantum_pos [simp]: "0 < quantum x"
  by (simp add: quantum_def)

lemma quantum_nonneg [simp]: "0 \<le> quantum x"
  using quantum_pos [of x] by (simp del: quantum_pos add: less_imp_le)

lemma quantum_neq0 [simp]: "quantum x \<noteq> 0"
  by (simp add: quantum_def)

lemma binade_minus [simp]: "binade (- x) = binade x"
  by (simp add: binade_def)

lemma quantum_minus [simp]: "quantum (- x) = quantum x"
  by (simp add: quantum_def)

lemma powr_of_int_2: "(2::real) powr real_of_int k = 2 powi k"
  by (simp add: powr_real_of_int')

lemma powr_of_int_2_Suc: "(2::real) powr (real_of_int k + 1) = 2 powi (k + 1)"
  using powr_of_int_2 [of "k + 1"] by simp

lemma floor_log2_bounds:
  assumes "0 < (x::real)"
  shows "2 powi \<lfloor>log 2 x\<rfloor> \<le> x" "x < 2 powi (\<lfloor>log 2 x\<rfloor> + 1)"
proof -
  have "2 powr real_of_int \<lfloor>log 2 x\<rfloor> \<le> x \<and> x < 2 powr real_of_int (\<lfloor>log 2 x\<rfloor> + 1)"
    using floor_log_eq_powr_iff [of x 2 "\<lfloor>log 2 x\<rfloor>"] assms by simp
  then show "2 powi \<lfloor>log 2 x\<rfloor> \<le> x" "x < 2 powi (\<lfloor>log 2 x\<rfloor> + 1)"
    by (simp_all add: powr_of_int_2 powr_of_int_2_Suc)
qed

lemma floor_log2_eq:
  assumes "2 powi e \<le> (x::real)" "x < 2 powi (e + 1)"
  shows "\<lfloor>log 2 x\<rfloor> = e"
proof -
  have pos: "0 < x" using assms(1) two_powi_pos [of e] by linarith
  have "2 powr real_of_int e \<le> x \<and> x < 2 powr real_of_int (e + 1)"
    using assms by (simp add: powr_of_int_2 powr_of_int_2_Suc)
  then show ?thesis
    using floor_log_eq_powr_iff [of x 2 e] pos by simp
qed

lemma binade_eq:
  assumes "2 powi e \<le> \<bar>x\<bar>" "\<bar>x\<bar> < 2 powi (e + 1)" "- 1022 \<le> e"
  shows "binade x = e"
proof -
  have "0 < \<bar>x\<bar>" using assms(1) two_powi_pos [of e] by linarith
  then have "x \<noteq> 0" by auto
  then show ?thesis
    using floor_log2_eq [OF assms(1,2)] assms(3) by (simp add: binade_def)
qed

lemma binade_small:
  assumes "\<bar>x\<bar> < 2 powi (- 1022)" "x \<noteq> 0"
  shows "binade x = - 1022"
proof -
  have "\<lfloor>log 2 \<bar>x\<bar>\<rfloor> < - 1022"
  proof (rule ccontr)
    assume "\<not> \<lfloor>log 2 \<bar>x\<bar>\<rfloor> < - 1022"
    then have "(2::real) powi (- 1022) \<le> 2 powi \<lfloor>log 2 \<bar>x\<bar>\<rfloor>"
      by (intro power_int_increasing) auto
    also have "\<dots> \<le> \<bar>x\<bar>" using floor_log2_bounds(1) [of "\<bar>x\<bar>"] assms(2) by simp
    finally show False using assms(1) by simp
  qed
  then show ?thesis using assms(2) by (simp add: binade_def)
qed

lemma binade_ge: "- 1022 \<le> binade x"
  by (simp add: binade_def)

lemma abs_less_binade: "x \<noteq> 0 \<Longrightarrow> \<bar>x\<bar> < 2 powi (binade x + 1)"
proof -
  assume "x \<noteq> 0"
  then have "\<bar>x\<bar> < 2 powi (\<lfloor>log 2 \<bar>x\<bar>\<rfloor> + 1)"
    using floor_log2_bounds(2) [of "\<bar>x\<bar>"] by simp
  also have "\<dots> \<le> 2 powi (binade x + 1)"
    using \<open>x \<noteq> 0\<close> by (intro power_int_increasing) (auto simp: binade_def)
  finally show ?thesis .
qed

lemma binade_le_abs: "- 1022 < binade x \<Longrightarrow> 2 powi binade x \<le> \<bar>x\<bar>"
proof -
  assume a: "- 1022 < binade x"
  then have b: "binade x = \<lfloor>log 2 \<bar>x\<bar>\<rfloor>" and "x \<noteq> 0"
    by (auto simp: binade_def max_def split: if_splits)
  then show ?thesis using floor_log2_bounds(1) [of "\<bar>x\<bar>"] by simp
qed

lemma binade_mono:
  assumes "x \<noteq> 0" "\<bar>x\<bar> \<le> \<bar>y\<bar>"
  shows "binade x \<le> binade y"
proof -
  have "log 2 \<bar>x\<bar> \<le> log 2 \<bar>y\<bar>" using assms by simp
  then have "\<lfloor>log 2 \<bar>x\<bar>\<rfloor> \<le> \<lfloor>log 2 \<bar>y\<bar>\<rfloor>" by (rule floor_mono)
  then show ?thesis using assms by (auto simp: binade_def)
qed

lemma rnd_fin_0 [simp]: "rnd_fin 0 = 0"
  by (simp add: rnd_fin_def)

lemma rnd_fin_minus: "rnd_fin (- x) = - rnd_fin x"
  by (simp add: rnd_fin_def round_even_minus)

lemma rnd_fin_mono_pos:
  assumes "0 < x" "x \<le> y"
  shows "rnd_fin x \<le> rnd_fin y"
proof -
  have xy: "x \<noteq> 0" "y \<noteq> 0" "0 < y" using assms by auto
  have b: "binade x \<le> binade y"
    using binade_mono [of x y] assms by simp
  show ?thesis
  proof (cases "binade x = binade y")
    case True
    then have q: "quantum x = quantum y" by (simp add: quantum_def)
    have "x / quantum y \<le> y / quantum y"
      using assms(2) by (intro divide_right_mono) simp_all
    then have "round_even (x / quantum y) \<le> round_even (y / quantum y)"
      by (rule round_even_mono)
    then show ?thesis
      by (simp add: rnd_fin_def q mult_right_mono)
  next
    case False
    then have lt: "binade x + 1 \<le> binade y" using b by simp
    then have big: "- 1022 < binade y" using binade_ge [of x] by linarith
    \<comment> \<open>upper bound for the rounding of x\<close>
    have "x / quantum x \<le> 2 powi (binade x + 1) / quantum x"
      using abs_less_binade [OF xy(1)] assms(1) by (simp add: divide_right_mono)
    also have "2 powi (binade x + 1) / quantum x = (2::real) powi 53"
      by (simp add: quantum_def power_int_diff [symmetric])
    also have "\<dots> = of_int (2 ^ 53)" by simp
    finally have "round_even (x / quantum x) \<le> 2 ^ 53" by (rule round_even_le_int)
    then have "of_int (round_even (x / quantum x)) * quantum x \<le> of_int (2 ^ 53) * quantum x"
      by (intro mult_right_mono) (simp_all flip: of_int_le_iff)
    also have "of_int (2 ^ 53) * quantum x = 2 powi (binade x + 1)"
      by (simp add: quantum_def power_int_diff two_powi_Suc)
    finally have ux: "rnd_fin x \<le> 2 powi (binade x + 1)" by (simp add: rnd_fin_def)
    \<comment> \<open>lower bound for the rounding of y\<close>
    have q52: "(2::real) powi 52 * quantum y = 2 powi binade y"
      unfolding quantum_def two_powi_mult by simp
    have "2 powi binade y / quantum y \<le> y / quantum y"
      using binade_le_abs [OF big] xy(3) by (intro divide_right_mono) simp_all
    moreover have "2 powi binade y / quantum y = (2::real) powi 52"
      using q52 [symmetric] by simp
    moreover have "(2::real) powi 52 = of_int (2 ^ 52)" by simp
    ultimately have "of_int (2 ^ 52) \<le> y / quantum y" by (simp only:)
    then have "2 ^ 52 \<le> round_even (y / quantum y)" by (rule round_even_ge_int)
    then have "(of_int (2 ^ 52) :: real) \<le> of_int (round_even (y / quantum y))"
      by (simp only: of_int_le_iff)
    then have "(2::real) powi 52 \<le> of_int (round_even (y / quantum y))" by simp
    then have "(2::real) powi 52 * quantum y \<le> of_int (round_even (y / quantum y)) * quantum y"
      by (intro mult_right_mono) simp_all
    then have ly: "2 powi binade y \<le> rnd_fin y"
      unfolding rnd_fin_def q52 .
    have "(2::real) powi (binade x + 1) \<le> 2 powi binade y"
      using lt by (intro power_int_increasing) auto
    then show ?thesis using ux ly by linarith
  qed
qed

lemma rnd_fin_nonneg: "0 \<le> x \<Longrightarrow> 0 \<le> rnd_fin x"
proof -
  assume "0 \<le> x"
  then have "of_int 0 \<le> x / quantum x" by simp
  then have "0 \<le> round_even (x / quantum x)" by (rule round_even_ge_int)
  then show ?thesis by (simp add: rnd_fin_def)
qed

lemma rnd_fin_mono: "x \<le> y \<Longrightarrow> rnd_fin x \<le> rnd_fin y"
proof -
  assume xy: "x \<le> y"
  consider "0 < x" | "x \<le> 0" "0 \<le> y" | "y < 0" using xy by linarith
  then show ?thesis
  proof cases
    case 1
    then show ?thesis using xy by (rule rnd_fin_mono_pos)
  next
    case 2
    have "0 \<le> rnd_fin y" using 2 by (simp add: rnd_fin_nonneg)
    moreover have "0 \<le> rnd_fin (- x)" using 2 by (simp add: rnd_fin_nonneg)
    ultimately show ?thesis by (simp add: rnd_fin_minus)
  next
    case 3
    have "rnd_fin (- y) \<le> rnd_fin (- x)"
      using 3 xy by (intro rnd_fin_mono_pos) auto
    then show ?thesis by (simp add: rnd_fin_minus)
  qed
qed

lemma round_even_near: "\<bar>y - of_int n\<bar> < 1 / 2 \<Longrightarrow> round_even y = n"
proof -
  assume a: "\<bar>y - of_int n\<bar> < 1 / 2"
  show ?thesis
  proof (cases "of_int n \<le> y")
    case True
    then have "\<lfloor>y\<rfloor> = n" using a by (intro floor_unique) auto
    then show ?thesis using a True by (simp add: round_even_def Let_def)
  next
    case False
    then have "\<lfloor>y\<rfloor> = n - 1" using a by (intro floor_unique) auto
    then show ?thesis using a False by (auto simp: round_even_def Let_def)
  qed
qed

lemma binade_upper:
  assumes "\<bar>x\<bar> < 2 powi (e + 1)" "- 1022 \<le> e"
  shows "binade x \<le> e"
proof (rule ccontr)
  assume "\<not> binade x \<le> e"
  then have gt: "e + 1 \<le> binade x" by simp
  then have "- 1022 < binade x" using assms(2) by linarith
  then have "2 powi binade x \<le> \<bar>x\<bar>" by (rule binade_le_abs)
  moreover have "(2::real) powi (e + 1) \<le> 2 powi binade x"
    using gt by (intro power_int_increasing) auto
  ultimately show False using assms(1) by linarith
qed

lemma rnd_fin_repr:
  assumes "\<bar>m\<bar> < 2 ^ 53" "- 1074 \<le> k"
  shows "rnd_fin (of_int m * 2 powi k) = of_int m * 2 powi k"
proof -
  define x :: real where "x = of_int m * 2 powi k"
  have "\<bar>x\<bar> = of_int \<bar>m\<bar> * 2 powi k" by (simp add: x_def abs_mult)
  also have "\<dots> < of_int (2 ^ 53) * 2 powi k"
    using assms(1) by (intro mult_strict_right_mono) (simp_all only: of_int_less_iff two_powi_pos)
  also have "\<dots> = 2 powi (k + 52 + 1)"
    unfolding two_powi_mult [symmetric] by (simp add: two_powi_Suc)
  finally have "binade x \<le> k + 52" using assms(2) by (intro binade_upper) auto
  then obtain j where j: "k = (binade x - 52) + int j"
  proof -
    have "0 \<le> k - (binade x - 52)" using \<open>binade x \<le> k + 52\<close> by simp
    then obtain j where "k - (binade x - 52) = int j" using zero_le_imp_eq_int by blast
    then have "k = (binade x - 52) + int j" by simp
    then show ?thesis using that by blast
  qed
  have "x / quantum x = of_int m * (2 powi k / 2 powi (binade x - 52))"
    by (simp add: x_def quantum_def)
  also have "2 powi k / 2 powi (binade x - 52) = (2::real) ^ j"
    by (subst j) (simp add: power_int_add)
  also have "of_int m * (2::real) ^ j = of_int (m * 2 ^ j)" by simp
  finally have "round_even (x / quantum x) = m * 2 ^ j" by (simp only: round_even_of_int)
  then have "rnd_fin x = of_int (m * 2 ^ j) * quantum x" by (simp add: rnd_fin_def)
  also have "\<dots> = of_int m * (2 ^ j * 2 powi (binade x - 52))" by (simp add: quantum_def)
  also have "2 ^ j * 2 powi (binade x - 52) = (2::real) powi k"
    by (subst j) (simp add: power_int_add)
  finally show ?thesis by (simp add: x_def)
qed

lemma rnd_fin_of_int: "\<bar>n\<bar> < 2 ^ 53 \<Longrightarrow> rnd_fin (of_int n) = of_int n"
  using rnd_fin_repr [of n 0] by simp

lemma rnd_fin_err: "\<bar>rnd_fin x - x\<bar> \<le> quantum x / 2"
proof -
  have "\<bar>of_int (round_even (x / quantum x)) - x / quantum x\<bar> * quantum x \<le> 1 / 2 * quantum x"
    by (intro mult_right_mono round_even_err) simp
  moreover have "\<bar>of_int (round_even (x / quantum x)) - x / quantum x\<bar> * quantum x
      = \<bar>rnd_fin x - x\<bar>"
  proof -
    have "\<bar>of_int (round_even (x / quantum x)) - x / quantum x\<bar> * quantum x
      = \<bar>(of_int (round_even (x / quantum x)) - x / quantum x) * quantum x\<bar>"
      by (simp add: abs_mult)
    also have "(of_int (round_even (x / quantum x)) - x / quantum x) * quantum x = rnd_fin x - x"
      by (simp add: rnd_fin_def algebra_simps)
    finally show ?thesis .
  qed
  ultimately show ?thesis by simp
qed

lemma quantum_rel: "2 powi (- 1022) \<le> \<bar>x\<bar> \<Longrightarrow> quantum x \<le> \<bar>x\<bar> / 2 ^ 52"
proof -
  assume a: "2 powi (- 1022) \<le> \<bar>x\<bar>"
  have "2 powi binade x \<le> \<bar>x\<bar>"
  proof (cases "- 1022 < binade x")
    case True then show ?thesis by (rule binade_le_abs)
  next
    case False
    then have "binade x = - 1022" using binade_ge [of x] by linarith
    then show ?thesis using a by simp
  qed
  moreover have "quantum x = 2 powi binade x / 2 ^ 52"
    by (simp add: quantum_def power_int_diff)
  ultimately show ?thesis by (simp add: divide_right_mono)
qed

lemma rnd_fin_rel_err:
  assumes "2 powi (- 1022) \<le> \<bar>x\<bar>"
  shows "\<bar>rnd_fin x - x\<bar> \<le> \<bar>x\<bar> / 2 ^ 53"
  using rnd_fin_err [of x] quantum_rel [OF assms] by simp

lemma quantum_small: "\<bar>x\<bar> < 2 powi (- 1022) \<Longrightarrow> quantum x = 2 powi (- 1074)"
proof (cases "x = 0")
  case True then show ?thesis by (simp add: quantum_def binade_def)
next
  case False
  assume "\<bar>x\<bar> < 2 powi (- 1022)"
  then have "binade x = - 1022" using False by (rule binade_small)
  then show ?thesis by (simp add: quantum_def)
qed

lemma eta_pos: "0 < eta"
  by (simp only: eta_def two_powi_pos)

lemma rnd_fin_mixed_err: "\<bar>rnd_fin x - x\<bar> \<le> \<bar>x\<bar> / 2 ^ 53 + eta"
proof (cases "2 powi (- 1022) \<le> \<bar>x\<bar>")
  case True
  then show ?thesis using rnd_fin_rel_err [OF True] eta_pos by linarith
next
  case False
  then have q: "quantum x = 2 powi (- 1074)" by (intro quantum_small) simp
  have h: "(2::real) powi (- 1074) = 2 * eta"
    unfolding eta_def using two_powi_Suc [of "- 1075"] by simp
  have "\<bar>rnd_fin x - x\<bar> \<le> eta"
    using rnd_fin_err [of x] unfolding q h by linarith
  moreover have "0 \<le> \<bar>x\<bar> / 2 ^ 53" by simp
  ultimately show ?thesis by linarith
qed

lemma overflow_bound_pos: "0 < overflow_bound"
  by (simp add: overflow_bound_def)

lemma rnd_finite: "\<bar>x\<bar> < overflow_bound \<Longrightarrow> rnd x = Fin (rnd_fin x)"
  by (simp add: rnd_def)

lemma rnd_0 [simp]: "rnd 0 = Fin 0"
  using overflow_bound_pos by (simp add: rnd_def)

lemma rnd_not_NaN [simp]: "rnd x \<noteq> NaN"
  by (simp add: rnd_def)

lemma rnd_mono: "x \<le> y \<Longrightarrow> fl_le (rnd x) (rnd y)"
  using overflow_bound_pos by (auto simp: rnd_def rnd_fin_mono)

lemma rnd_of_int: "\<bar>n\<bar> < 2 ^ 53 \<Longrightarrow> rnd (of_int n) = Fin (of_int n)"
proof -
  assume a: "\<bar>n\<bar> < 2 ^ 53"
  then have "\<bar>real_of_int n\<bar> < 2 ^ 53"
    by (metis of_int_abs of_int_less_iff of_int_numeral of_int_power)
  moreover have "(2::real) ^ 53 \<le> overflow_bound" by (simp add: overflow_bound_def)
  ultimately have "\<bar>real_of_int n\<bar> < overflow_bound" by linarith
  then show ?thesis using a by (simp add: rnd_finite rnd_fin_of_int)
qed

lemma rnd_bounded:
  assumes "\<bar>x\<bar> \<le> of_int n" "n < 2 ^ 53"
  shows "\<exists>r. rnd x = Fin r \<and> \<bar>r\<bar> \<le> of_int n"
proof -
  have "0 \<le> (of_int n :: real)" using assms(1) by linarith
  then have n0: "0 \<le> n" by simp
  then have an: "\<bar>n\<bar> < 2 ^ 53" "\<bar>- n\<bar> < 2 ^ 53" using assms(2) by auto
  have "real_of_int n < 2 ^ 53" using assms(2)
    by (metis of_int_less_iff of_int_numeral of_int_power)
  moreover have "(2::real) ^ 53 \<le> overflow_bound" by (simp add: overflow_bound_def)
  ultimately have fin: "\<bar>x\<bar> < overflow_bound" using assms(1) by linarith
  have "rnd_fin x \<le> rnd_fin (of_int n)" using assms(1) by (intro rnd_fin_mono) linarith
  moreover have "rnd_fin (of_int (- n)) \<le> rnd_fin x" using assms(1) by (intro rnd_fin_mono) simp
  ultimately have "\<bar>rnd_fin x\<bar> \<le> of_int n"
    using rnd_fin_of_int [OF an(1)] rnd_fin_of_int [OF an(2)] by simp
  then show ?thesis using fin by (simp add: rnd_finite)
qed

subsection \<open>Stage names and parameters\<close>

lemma lower_stage_names: "s \<in> set stage_names \<Longrightarrow> lower s = s"
  by (auto simp: stage_names_def lower_def lower_char_def)

lemma lower_char_idem: "lower_char (lower_char c) = lower_char c"
proof -
  have "(of_char (char_of (of_char c + 32 :: nat) :: char) :: nat) = of_char c + 32"
    if "(of_char c :: nat) \<le> 222"
    using that by (simp add: of_char_of)
  then show ?thesis
    by (auto simp: lower_char_def Let_def)
qed

lemma lower_idem: "lower (lower s) = lower s"
  by (simp add: lower_def lower_char_idem)

lemma lower_examples:
  "lower ''Pinkbud'' = ''pinkbud''"
  "lower ''FULLBLOOM'' = ''fullbloom''"
  "lower ''SmallNut'' = ''smallnut''"
  by code_simp+

lemma gdp_configured:
  "get_damage_parameters ''pinkbud'' = Inr (10, 15 / 10)"
  "get_damage_parameters ''fullbloom'' = Inr (9, 14 / 10)"
  "get_damage_parameters ''petalfall'' = Inr (8, 13 / 10)"
  "get_damage_parameters ''fruitset'' = Inr (7, 12 / 10)"
  "get_damage_parameters ''smallnut'' = Inr (6, 11 / 10)"
  by (simp_all add: get_damage_parameters_def lower_def lower_char_def)

lemma gdp_lower: "get_damage_parameters (lower s) = get_damage_parameters s"
  by (simp add: get_damage_parameters_def lower_idem)

lemma gdp_error_iff: "(\<exists>e. get_damage_parameters s = Inl e) \<longleftrightarrow> lower s \<notin> set stage_names"
  by (auto simp: get_damage_parameters_def Let_def stage_names_def)

lemma gdp_error: "lower s \<notin> set stage_names \<Longrightarrow> get_damage_parameters s = Inl ValueError"
  by (auto simp: get_damage_parameters_def Let_def stage_names_def)

lemma gdp_cases:
  assumes "get_damage_parameters s = Inr (a, b)"
  shows "(a, b) \<in> {(10, 15 / 10), (9, 14 / 10), (8, 13 / 10), (7, 12 / 10), (6, 11 / 10)}"
  using assms by (auto simp: get_damage_parameters_def Let_def split: if_splits)

lemma gdp_slope_pos: "get_damage_parameters s = Inr (a, b) \<Longrightarrow> 0 < b"
  by (drule gdp_cases) auto

subsection \<open>Worked values\<close>

lemma fromisoformat_examples:
  "fromisoformat ''2024-01-01 03:00'' =
     Some \<lparr>dt_year = 2024, dt_month = 1, dt_day = 1, dt_hour = 3, dt_minute = 0, dt_second = 0\<rparr>"
  "fromisoformat ''2024-01-01 04:00'' =
     Some \<lparr>dt_year = 2024, dt_month = 1, dt_day = 1, dt_hour = 4, dt_minute = 0, dt_second = 0\<rparr>"
  by code_simp+

lemma isoformat_examples:
  "isoformat \<lparr>dt_year = 2024, dt_month = 1, dt_day = 1, dt_hour = 3, dt_minute = 0, dt_second = 0\<rparr>
     = ''2024-01-01T03:00:00''"
  "isoformat \<lparr>dt_year = 2024, dt_month = 1, dt_day = 1, dt_hour = 4, dt_minute = 0, dt_second = 0\<rparr>
     = ''2024-01-01T04:00:00''"
  by code_simp+

lemma parse_decimal_examples:
  "parse_decimal ''5.00'' = Some 5" "parse_decimal ''80'' = Some 80"
  "parse_decimal ''10.00'' = Some 10" "parse_decimal ''8.00'' = Some 8"
  by code_simp+

lemma to_seconds_examples:
  "to_seconds \<lparr>dt_year = 2024, dt_month = 1, dt_day = 1, dt_hour = 3, dt_minute = 0, dt_second = 0\<rparr>
     = 63839761200"
  "to_seconds \<lparr>dt_year = 2024, dt_month = 1, dt_day = 1, dt_hour = 4, dt_minute = 0, dt_second = 0\<rparr>
     = 63839764800"
  by code_simp+

lemmas normalise_unfold =
  cimis_json_to_records_def document_def hourly_record_def value_object_def ebind_def
  record_to_row_def zfill2_def key_lt_def
  fromisoformat_examples parse_decimal_examples to_seconds_examples [simplified]





subsection \<open>The loop of the frost-risk computation\<close>





subsection \<open>Literals and the logistic curve\<close>

lemma lit_of_int: "\<bar>n\<bar> < 2 ^ 53 \<Longrightarrow> lit (of_int n) = of_int n"
  by (simp add: lit_def rnd_fin_of_int)

lemma lit_numerals:
  "lit 10 = 10" "lit 9 = 9" "lit 8 = 8" "lit 7 = 7" "lit 6 = 6"
  using lit_of_int [of 10] lit_of_int [of 9] lit_of_int [of 8] lit_of_int [of 7] lit_of_int [of 6]
  by simp_all

lemma lit_three_halves: "lit (15 / 10) = 3 / 2" "lit (3 / 2) = 3 / 2"
  using rnd_fin_repr [of 3 "- 1"] by (simp_all add: lit_def)

lemma lit_bounds:
  assumes "of_int lo \<le> x" "x \<le> of_int hi" "\<bar>lo\<bar> < 2 ^ 53" "\<bar>hi\<bar> < 2 ^ 53"
  shows "of_int lo \<le> lit x \<and> lit x \<le> of_int hi"
  using rnd_fin_mono [OF assms(1)] rnd_fin_mono [OF assms(2)]
    rnd_fin_of_int [OF assms(3)] rnd_fin_of_int [OF assms(4)]
  by (simp add: lit_def)

lemma gdp_lit:
  assumes "get_damage_parameters s = Inr (a, b)"
  shows "1 \<le> lit b \<and> lit b \<le> 2 \<and> 6 \<le> lit a \<and> lit a \<le> 10"
proof -
  have "(a, b) \<in> {(10, 15 / 10), (9, 14 / 10), (8, 13 / 10), (7, 12 / 10), (6, 11 / 10)}"
    by (rule gdp_cases [OF assms])
  then have ab: "a \<in> {10, 9, 8, 7, 6}" "1 \<le> b" "b \<le> 2" by auto
  have "of_int 1 \<le> lit b \<and> lit b \<le> of_int 2"
    using ab by (intro lit_bounds) auto
  moreover have "6 \<le> lit a \<and> lit a \<le> 10"
    using ab(1) by (auto simp: lit_numerals)
  ultimately show ?thesis by simp
qed

lemma fadd_Fin_not_NaN: "v \<noteq> NaN \<Longrightarrow> fadd (Fin a) v \<noteq> NaN"
  by (cases v) simp_all

lemma fmul_Fin_Fin_not_NaN: "fmul (Fin a) (Fin b) \<noteq> NaN"
  by simp

lemma rnd_nonneg_cases:
  assumes "0 \<le> x"
  shows "rnd x = PInf \<or> (\<exists>r. rnd x = Fin r \<and> 0 \<le> r)"
  using assms overflow_bound_pos by (auto simp: rnd_def rnd_fin_nonneg)

lemma rnd_ge_one_cases:
  assumes "1 \<le> x"
  shows "rnd x = PInf \<or> (\<exists>r. rnd x = Fin r \<and> 1 \<le> r)"
proof -
  have "rnd_fin 1 \<le> rnd_fin x" using assms by (rule rnd_fin_mono)
  moreover have "rnd_fin 1 = 1" using rnd_fin_of_int [of 1] by simp
  ultimately show ?thesis using assms by (auto simp: rnd_def)
qed

lemma rnd_unit_interval:
  assumes "0 \<le> x" "x \<le> 1"
  shows "\<exists>r. rnd x = Fin r \<and> 0 \<le> r \<and> r \<le> 1"
proof -
  have "\<bar>x\<bar> \<le> of_int 1" using assms by simp
  then obtain r where r: "rnd x = Fin r" "\<bar>r\<bar> \<le> of_int 1"
    using rnd_bounded [of x 1] by auto
  moreover have "0 \<le> r" using rnd_nonneg_cases [OF assms(1)] r(1) by auto
  ultimately show ?thesis by auto
qed

lemma logistic_tail_Fin:
  assumes "0 \<le> r"
  shows "\<exists>p. py_div (Fin 1) (fadd (Fin 1) (Fin r)) = Inr (Fin p) \<and> 0 \<le> p \<and> p \<le> 1"
proof -
  have "1 \<le> 1 + r" using assms by simp
  then consider "rnd (1 + r) = PInf" | y where "rnd (1 + r) = Fin y" "1 \<le> y"
    using rnd_ge_one_cases by blast
  then show ?thesis
  proof cases
    case 1
    then show ?thesis by (simp add: py_div_def)
  next
    case 2
    have "0 \<le> 1 / y" "1 / y \<le> 1" using 2(2) by simp_all
    then obtain p where "rnd (1 / y) = Fin p" "0 \<le> p" "p \<le> 1"
      using rnd_unit_interval by blast
    then show ?thesis using 2 by (simp add: py_div_def)
  qed
qed

lemma logistic_tail_PInf: "py_div (Fin 1) (fadd (Fin 1) PInf) = Inr (Fin 0)"
  by (simp add: py_div_def)

lemma py_exp_outcomes:
  assumes "exp_range L" "v \<noteq> NaN"
  shows "py_exp L v = Inl OverflowError \<or> py_exp L v = Inr PInf \<or>
         (\<exists>r. py_exp L v = Inr (Fin r) \<and> 0 \<le> r)"
proof (cases v)
  case (Fin x)
  have "m_exp L x = PInf \<or> (\<exists>r. m_exp L x = Fin r \<and> 0 \<le> r)"
    using assms(1) by (simp add: exp_range_def)
  then show ?thesis using Fin by (auto simp: py_exp_def)
qed (use assms(2) in \<open>simp_all add: py_exp_def\<close>)

lemma damage_curve_unfold:
  assumes "get_damage_parameters stage = Inr (a, b)"
  shows "damage_curve L v stage =
     ebind (py_exp L (fneg (fadd (Fin (lit a)) (fmul (Fin (lit b)) v))))
       (\<lambda>e. py_div (Fin 1) (fadd (Fin 1) e))"
  by (simp add: damage_curve_def assms ebind_def Let_def)

lemma fneg_not_NaN: "v \<noteq> NaN \<Longrightarrow> fneg v \<noteq> NaN"
  by (cases v) simp_all

lemma damage_curve_range:
  assumes "exp_range L" and "get_damage_parameters stage = Inr (a, b)"
  shows "damage_curve L (Fin t) stage = Inl OverflowError \<or>
         (\<exists>p. damage_curve L (Fin t) stage = Inr (Fin p) \<and> 0 \<le> p \<and> p \<le> 1)"
proof -
  define z where "z = fneg (fadd (Fin (lit a)) (fmul (Fin (lit b)) (Fin t)))"
  have zn: "z \<noteq> NaN"
    unfolding z_def by (intro fneg_not_NaN fadd_Fin_not_NaN fmul_Fin_Fin_not_NaN)
  have dc: "damage_curve L (Fin t) stage =
      ebind (py_exp L z) (\<lambda>e. py_div (Fin 1) (fadd (Fin 1) e))"
    unfolding z_def by (rule damage_curve_unfold [OF assms(2)])
  consider "py_exp L z = Inl OverflowError" | "py_exp L z = Inr PInf"
    | r where "py_exp L z = Inr (Fin r)" "0 \<le> r"
    using py_exp_outcomes [OF assms(1) zn] by blast
  then show ?thesis
  proof cases
    case 1
    then show ?thesis by (simp add: dc ebind_def)
  next
    case 2
    then show ?thesis by (simp add: dc ebind_def py_div_def)
  next
    case 3
    then show ?thesis using logistic_tail_Fin [OF 3(2)] by (simp add: dc ebind_def)
  qed
qed

subsection \<open>Monotonicity\<close>

lemma fl_le_refl_iff: "fl_le v v \<longleftrightarrow> v \<noteq> NaN"
  by (cases v) simp_all

lemma fl_le_not_NaN: "fl_le u v \<Longrightarrow> u \<noteq> NaN \<and> v \<noteq> NaN"
  by (cases u; cases v) simp_all

lemma fl_le_PInf: "v \<noteq> NaN \<Longrightarrow> fl_le v PInf"
  by (cases v) simp_all

lemma fl_le_NInf: "v \<noteq> NaN \<Longrightarrow> fl_le NInf v"
  by (cases v) simp_all

lemma fadd_Fin_mono: "fl_le u v \<Longrightarrow> fl_le (fadd (Fin a) u) (fadd (Fin a) v)"
proof (cases u; cases v)
  fix x y assume "fl_le u v" "u = Fin x" "v = Fin y"
  then show ?thesis by (simp add: rnd_mono)
qed (simp_all add: fl_le_PInf fl_le_NInf)

lemma fneg_antimono: "fl_le u v \<Longrightarrow> fl_le (fneg v) (fneg u)"
  by (cases u; cases v) simp_all

lemma fmul_pos_mono:
  assumes "0 < b" "t1 \<le> t2"
  shows "fl_le (fmul (Fin b) (Fin t1)) (fmul (Fin b) (Fin t2))"
  using assms by (simp add: rnd_mono)

lemma py_exp_mono:
  assumes "exp_range L" "exp_monotone L" "fl_le u v"
    and "py_exp L u = Inr e1" "py_exp L v = Inr e2"
  shows "fl_le e1 e2"
proof -
  have ex: "m_exp L x = PInf \<or> (\<exists>r. m_exp L x = Fin r \<and> 0 \<le> r)" for x
    using assms(1) by (simp add: exp_range_def)
  have mono: "fl_le (m_exp L x) (m_exp L y)" if "x \<le> y" for x y
    using assms(2) that by (simp add: exp_monotone_def)
  show ?thesis
  proof (cases u)
    case u: (Fin x)
    show ?thesis
    proof (cases v)
      case v: (Fin y)
      have "fl_le (m_exp L x) (m_exp L y)" using assms(3) u v by (intro mono) simp
      then show ?thesis
        using assms(4,5) u v ex [of x] ex [of y] by (auto simp: py_exp_def)
    next
      case PInf
      then show ?thesis using assms(4,5) u ex [of x] by (auto simp: py_exp_def)
    qed (use assms(3) u in simp_all)
  next
    case NInf
    show ?thesis
    proof (cases v)
      case (Fin y)
      then show ?thesis using assms(4,5) NInf ex [of y] by (auto simp: py_exp_def)
    qed (use assms(3,4,5) NInf in \<open>auto simp: py_exp_def\<close>)
  next
    case PInf
    then show ?thesis using assms(3,4,5) by (cases v) (auto simp: py_exp_def)
  qed (use assms(3) in simp)
qed

lemma py_exp_value:
  assumes "exp_range L" "v \<noteq> NaN" "py_exp L v = Inr e"
  shows "e = PInf \<or> (\<exists>r. e = Fin r \<and> 0 \<le> r)"
  using py_exp_outcomes [OF assms(1,2)] assms(3) by auto

lemma one_plus_cases:
  assumes "e = PInf \<or> (\<exists>r. e = Fin r \<and> 0 \<le> r)"
  shows "fadd (Fin 1) e = PInf \<or> (\<exists>y. fadd (Fin 1) e = Fin y \<and> 1 \<le> y)"
proof -
  from assms show ?thesis
  proof (elim disjE exE conjE)
    fix r assume "e = Fin r" "0 \<le> r"
    then show ?thesis using rnd_ge_one_cases [of "1 + r"] by simp
  qed simp
qed

lemma recip_antimono:
  assumes "fl_le d2 d1"
    and "d1 = PInf \<or> (\<exists>y. d1 = Fin y \<and> 1 \<le> y)"
    and "d2 = PInf \<or> (\<exists>y. d2 = Fin y \<and> 1 \<le> y)"
  shows "fl_le (fdiv (Fin 1) d1) (fdiv (Fin 1) d2)"
proof -
  have nonneg: "fl_le (Fin 0) (rnd (1 / y))" if "1 \<le> y" for y :: real
  proof -
    have "fl_le (rnd 0) (rnd (1 / y))" using that by (intro rnd_mono) simp
    then show ?thesis by simp
  qed
  from assms(2,3) show ?thesis
  proof (elim disjE exE conjE)
    fix y1 y2 assume "d1 = Fin y1" "1 \<le> y1" "d2 = Fin y2" "1 \<le> y2"
    then show ?thesis using assms(1) by (auto intro!: rnd_mono simp: frac_le)
  next
    fix y2 assume "d1 = PInf" "d2 = Fin y2" "1 \<le> y2"
    then show ?thesis using nonneg [of y2] by simp
  qed (use assms(1) in auto)
qed

subsection \<open>The correctly rounded library\<close>

lemma cr_libm_simps [simp]:
  "m_exp cr_libm x = rnd (exp x)"
  "m_log cr_libm x = rnd_fin (ln x)"
  "m_atan cr_libm x = rnd_fin (arctan x)"
  "m_pow15 cr_libm x = rnd (x powr (3 / 2))"
  by (simp_all add: cr_libm_def)

lemma exp_range_cr: "exp_range cr_libm"
  unfolding exp_range_def using rnd_nonneg_cases [of "exp x" for x] by simp

lemma exp_monotone_cr: "exp_monotone cr_libm"
  by (simp add: exp_monotone_def rnd_mono)

lemma exp_ge_two_power: "(2::real) ^ n \<le> exp (real n)"
proof -
  have "(2::real) ^ n \<le> exp 1 ^ n"
    by (rule power_mono) (use exp_ge_add_one_self [of 1] in simp_all)
  also have "\<dots> = exp (real n)"
    by (simp add: exp_of_nat_mult [symmetric])
  finally show ?thesis .
qed

lemma exp_1490_overflows: "rnd (exp 1490) = PInf"
proof -
  have "(2::real) ^ 1490 \<le> exp (real 1490)" by (rule exp_ge_two_power)
  moreover have "overflow_bound \<le> (2::real) ^ 1490" by (simp add: overflow_bound_def)
  ultimately have "overflow_bound \<le> exp 1490" by simp
  then show ?thesis by (simp add: rnd_def)
qed

lemma rnd_one_plus_small:
  assumes "0 \<le> e" "e < 1 / 2 ^ 53"
  shows "rnd (1 + e) = Fin 1"
proof -
  have b: "binade (1 + e) = 0"
    using assms by (intro binade_eq) auto
  have q: "quantum (1 + e) = 1 / 2 ^ 52" by (simp add: quantum_def b power_int_minus_divide)
  have "\<bar>(1 + e) / quantum (1 + e) - of_int (2 ^ 52)\<bar> = e * 2 ^ 52"
    using assms(1) by (simp add: q algebra_simps)
  also have "\<dots> < 1 / 2" using assms(2) by (simp add: field_simps)
  finally have "round_even ((1 + e) / quantum (1 + e)) = 2 ^ 52" by (rule round_even_near)
  then have "rnd_fin (1 + e) = 1" by (simp add: rnd_fin_def q)
  moreover have "\<bar>1 + e\<bar> < overflow_bound" using assms by (simp add: overflow_bound_def)
  ultimately show ?thesis by (simp add: rnd_finite)
qed

lemma exp_small:
  assumes "55 \<le> n"
  shows "\<exists>e. rnd (exp (- real n)) = Fin e \<and> 0 \<le> e \<and> e < 1 / 2 ^ 53"
proof -
  have "(2::real) ^ 55 \<le> 2 ^ n" using assms by (intro power_increasing) auto
  also have "\<dots> \<le> exp (real n)" by (rule exp_ge_two_power)
  finally have "exp (- real n) \<le> 1 / 2 ^ 55"
    by (simp add: exp_minus field_simps)
  then have le: "rnd_fin (exp (- real n)) \<le> rnd_fin (1 / 2 ^ 55)" by (rule rnd_fin_mono)
  have "rnd_fin (of_int 1 * 2 powi (- 55)) = of_int 1 * 2 powi (- 55)"
    by (rule rnd_fin_repr) simp_all
  then have "rnd_fin (1 / 2 ^ 55) = 1 / 2 ^ 55" by (simp add: power_int_minus_divide)
  then have up: "rnd_fin (exp (- real n)) < 1 / 2 ^ 53" using le by simp
  have "\<bar>exp (- real n)\<bar> \<le> 1" by simp
  moreover have "1 < overflow_bound" by (simp add: overflow_bound_def)
  ultimately have "rnd (exp (- real n)) = Fin (rnd_fin (exp (- real n)))"
    by (intro rnd_finite) linarith
  then show ?thesis using up rnd_fin_nonneg [of "exp (- real n)"] by simp
qed

lemma damage_curve_pinkbud:
  "damage_curve L v ''pinkbud'' =
     ebind (py_exp L (fneg (fadd (Fin 10) (fmul (Fin (3 / 2)) v))))
       (\<lambda>e. py_div (Fin 1) (fadd (Fin 1) e))"
  using damage_curve_unfold [OF gdp_configured(1), of L v]
  by (simp add: lit_numerals lit_three_halves)

lemma dc_m1000: "damage_curve cr_libm (Fin (- 1000)) ''pinkbud'' = Inl OverflowError"
proof -
  have "rnd (of_int (- 1500)) = Fin (of_int (- 1500))" by (rule rnd_of_int) simp
  then have m: "fmul (Fin (3 / 2)) (Fin (- 1000)) = Fin (- 1500)" by simp
  have "rnd (of_int (- 1490)) = Fin (of_int (- 1490))" by (rule rnd_of_int) simp
  then have a: "fadd (Fin 10) (Fin (- 1500)) = Fin (- 1490)" by simp
  show ?thesis
    by (simp add: damage_curve_pinkbud m a py_exp_def exp_1490_overflows ebind_def del: fmul.simps fadd.simps)
qed

lemma dc_sat:
  assumes "t = 30 \<or> t = 40"
  shows "damage_curve cr_libm (Fin t) ''pinkbud'' = Inr (Fin 1)"
proof -
  obtain n :: nat where n: "10 + 3 / 2 * t = real n" "55 \<le> n" "n \<le> 70"
    using assms by (auto intro: that [of 55] that [of 70])
  have t: "3 / 2 * t = of_int (int n - 10)" using n(1) by simp
  have "rnd (of_int (int n - 10)) = Fin (of_int (int n - 10))" using n(3) by (intro rnd_of_int) simp
  then have m: "fmul (Fin (3 / 2)) (Fin t) = Fin (real n - 10)" unfolding fmul.simps t by simp
  have "rnd (of_int (int n)) = Fin (of_int (int n))" using n(3) by (intro rnd_of_int) simp
  then have a: "fadd (Fin 10) (Fin (real n - 10)) = Fin (real n)" by simp
  obtain e where e: "rnd (exp (- real n)) = Fin e" "0 \<le> e" "e < 1 / 2 ^ 53"
    using exp_small [OF n(2)] by blast
  have o: "fadd (Fin 1) (Fin e) = Fin 1" using rnd_one_plus_small [OF e(2,3)] by simp
  have d: "rnd 1 = Fin 1" using rnd_of_int [of 1] by simp
  show ?thesis
    by (simp add: damage_curve_pinkbud m a py_exp_def e o d py_div_def ebind_def del: fmul.simps fadd.simps)
qed

lemma dc_of_NInf:
  assumes "fmul (Fin (3 / 2)) v = NInf"
  shows "damage_curve L v ''pinkbud'' = Inr (Fin 0)"
  by (simp add: damage_curve_pinkbud assms py_exp_def py_div_def ebind_def)

lemma fmul_overflows_down:
  assumes "t \<le> - (3 * 2 ^ 1022)"
  shows "fmul (Fin (3 / 2)) (Fin t) = NInf"
proof -
  have "overflow_bound \<le> 3 / 2 * (3 * 2 ^ 1022)" unfolding overflow_bound_def by simp
  moreover have "(0::real) < 3 * 2 ^ 1022" by simp
  then have "t < 0" using assms by linarith
  ultimately have "overflow_bound \<le> \<bar>3 / 2 * t\<bar>" "\<not> 0 < 3 / 2 * t" using assms by linarith+
  then show ?thesis unfolding fmul.simps rnd_def by simp
qed

lemma dc_zero: "damage_curve L (Fin (- (3 * 2 ^ 1022))) ''pinkbud'' = Inr (Fin 0)"
  by (rule dc_of_NInf) (rule fmul_overflows_down, rule order_refl)

lemma is_double_repr:
  assumes "\<bar>m\<bar> < 2 ^ 53" "- 1074 \<le> k" "k \<le> 970"
  shows "is_double (of_int m * 2 powi k)"
proof -
  have "\<bar>of_int m * 2 powi k\<bar> = \<bar>of_int m :: real\<bar> * 2 powi k" by (simp add: abs_mult)
  also have "\<dots> \<le> 2 ^ 53 * 2 powi k"
    using assms(1) by (intro mult_right_mono) (simp_all flip: of_int_abs add: of_int_le_numeral_power_cancel_iff)
  also have "\<dots> \<le> 2 ^ 53 * 2 powi 970"
    using assms(3) by (intro mult_left_mono power_int_increasing) simp_all
  also have "\<dots> < overflow_bound" by (simp add: overflow_bound_def)
  finally show ?thesis using rnd_fin_repr [OF assms(1,2)] by (simp add: is_double_def)
qed

lemma is_double_big: "is_double (- (3 * 2 ^ 1022))"
proof -
  have "\<bar>- (3 * 2 ^ 1022) :: real\<bar> < overflow_bound" by (simp add: overflow_bound_def)
  moreover have "rnd_fin (of_int (- 3) * 2 powi 1022) = of_int (- 3) * 2 powi 1022"
    by (rule rnd_fin_repr) simp_all
  ultimately show ?thesis by (simp add: is_double_def)
qed

subsection \<open>Bounded operations\<close>

lemma u53_pos: "0 < u53" by (simp add: u53_def)

lemma eta_le_u53: "eta \<le> u53"
proof -
  have "(2::real) powi (- 1075) \<le> 2 powi (- 53)" by (rule power_int_increasing) simp_all
  then show ?thesis by (simp add: eta_def u53_def power_int_minus_divide)
qed

lemma rnd_fin_err_bound:
  assumes "\<bar>x\<bar> \<le> c"
  shows "\<bar>rnd_fin x - x\<bar> \<le> c * u53 + eta"
proof -
  have "\<bar>rnd_fin x - x\<bar> \<le> \<bar>x\<bar> / 2 ^ 53 + eta" by (rule rnd_fin_mixed_err)
  also have "\<bar>x\<bar> / 2 ^ 53 = \<bar>x\<bar> * u53" by (simp add: u53_def)
  also have "\<bar>x\<bar> * u53 \<le> c * u53" using assms u53_pos by (intro mult_right_mono) simp_all
  finally show ?thesis by simp
qed

lemma rnd_fin_between:
  assumes "of_int lo \<le> x" "x \<le> of_int hi" "\<bar>lo\<bar> < 2 ^ 53" "\<bar>hi\<bar> < 2 ^ 53"
  shows "of_int lo \<le> rnd_fin x \<and> rnd_fin x \<le> of_int hi"
  using rnd_fin_mono [OF assms(1)] rnd_fin_mono [OF assms(2)]
    rnd_fin_of_int [OF assms(3)] rnd_fin_of_int [OF assms(4)]
  by simp

lemma rnd_between:
  assumes "of_int lo \<le> x" "x \<le> of_int hi" "\<bar>lo\<bar> < 2 ^ 53" "\<bar>hi\<bar> < 2 ^ 53"
  shows "rnd x = Fin (rnd_fin x) \<and> of_int lo \<le> rnd_fin x \<and> rnd_fin x \<le> of_int hi"
proof -
  have "\<bar>x\<bar> \<le> of_int (max \<bar>lo\<bar> \<bar>hi\<bar>)" using assms(1,2) by (simp add: max_def) linarith
  moreover have "max \<bar>lo\<bar> \<bar>hi\<bar> < 2 ^ 53" using assms(3,4) by simp
  ultimately obtain r where "rnd x = Fin r" using rnd_bounded by blast
  then have "rnd x = Fin (rnd_fin x)" by (simp add: rnd_def split: if_splits)
  then show ?thesis using rnd_fin_between [OF assms] by simp
qed

lemma quotient_perturbation:
  fixes n d n0 d0 :: real
  assumes "0 < d0" "0 < dl" "dl \<le> d" "\<bar>n - n0\<bar> \<le> en" "\<bar>d - d0\<bar> \<le> ed" "\<bar>n0 / d0\<bar> \<le> T"
  shows "\<bar>n / d - n0 / d0\<bar> \<le> (en + T * ed) / dl"
proof -
  have d: "0 < d" using assms(2,3) by linarith
  have "n / d - n0 / d0 = ((n - n0) - (n0 / d0) * (d - d0)) / d"
    using d assms(1) by (simp add: field_simps)
  then have "\<bar>n / d - n0 / d0\<bar> = \<bar>(n - n0) - (n0 / d0) * (d - d0)\<bar> / d"
    using d by simp
  also have "\<bar>(n - n0) - (n0 / d0) * (d - d0)\<bar> \<le> \<bar>n - n0\<bar> + \<bar>n0 / d0\<bar> * \<bar>d - d0\<bar>"
    by (metis abs_mult abs_triangle_ineq4)
  also have "\<dots> \<le> en + T * ed"
  proof -
    have "0 \<le> T" using assms(6) by linarith
    then show ?thesis using assms(4,5,6) by (intro add_mono mult_mono) simp_all
  qed
  finally have "\<bar>n / d - n0 / d0\<bar> \<le> (en + T * ed) / d"
    using d by (simp add: divide_right_mono)
  also have "\<dots> \<le> (en + T * ed) / dl"
  proof -
    have "0 \<le> en" "0 \<le> ed" "0 \<le> T" using assms(4,5,6) by linarith+
    then have "0 \<le> en + T * ed" by simp
    then show ?thesis using assms(2,3) by (intro divide_left_mono) simp_all
  qed
  finally show ?thesis .
qed

lemma lit_consts:
  "17 \<le> lit 17.27" "lit 17.27 \<le> 18" "237 \<le> lit 237.7" "lit 237.7 \<le> 238"
  using lit_bounds [of 17 "17.27" 18] lit_bounds [of 237 "237.7" 238] by simp_all

lemma abs_div_bound:
  fixes n d :: real
  assumes "\<bar>n\<bar> \<le> a" "dl \<le> d" "0 < dl" "a \<le> c * dl"
  shows "\<bar>n / d\<bar> \<le> c"
proof -
  have d: "0 < d" using assms(2,3) by linarith
  have "\<bar>n / d\<bar> = \<bar>n\<bar> / d" using d by simp
  also have "\<dots> \<le> a / d" using assms(1) d by (simp add: divide_right_mono)
  also have "\<dots> \<le> a / dl"
    using assms(1,2,3) by (intro divide_left_mono) (auto intro: mult_pos_pos)
  also have "\<dots> \<le> c" using assms(3,4) by (simp add: field_simps)
  finally show ?thesis .
qed

lemma rnd_step:
  assumes "of_int lo \<le> x" "x \<le> of_int hi" "\<bar>lo\<bar> < 2 ^ 53" "\<bar>hi\<bar> < 2 ^ 53"
    "\<bar>lo\<bar> \<le> c" "\<bar>hi\<bar> \<le> c"
  shows "\<exists>r. rnd x = Fin r \<and> of_int lo \<le> r \<and> r \<le> of_int hi \<and> \<bar>r - x\<bar> \<le> (of_int c + 1) * u53"
proof -
  have "- of_int c \<le> (of_int lo :: real)" "(of_int hi :: real) \<le> of_int c"
    using assms(5,6) by linarith+
  then have "\<bar>x\<bar> \<le> of_int c" using assms(1,2) by linarith
  then have "\<bar>rnd_fin x - x\<bar> \<le> of_int c * u53 + eta" by (rule rnd_fin_err_bound)
  then have "\<bar>rnd_fin x - x\<bar> \<le> (of_int c + 1) * u53" using eta_le_u53 by (simp add: algebra_simps)
  then show ?thesis using rnd_between [OF assms(1-4)] by simp
qed

lemma saturated_dew_point_error:
  assumes L: "log_one L" and t: "- 100 \<le> t" "t \<le> 100"
  shows "\<exists>r. dew_point_temperature L t 100 = Inr (Fin r) \<and> \<bar>r - t\<bar> \<le> 12111 * u53"
proof -
  define A where "A = lit 17.27"
  define B where "B = lit 237.7"
  define U where "U = u53"
  have U: "0 < U" by (simp add: U_def u53_pos)
  have A: "17 \<le> A" "A \<le> 18" and B: "237 \<le> B" "B \<le> 238"
    using lit_consts by (simp_all add: A_def B_def)
  have At: "- 1800 \<le> A * t" "A * t \<le> 1800"
  proof -
    have "\<bar>A * t\<bar> \<le> 18 * 100"
      unfolding abs_mult using A t by (intro mult_mono) simp_all
    then show "- 1800 \<le> A * t" "A * t \<le> 1800" by linarith+
  qed
  obtain P where P: "rnd (A * t) = Fin P" "- 1800 \<le> P" "P \<le> 1800" "\<bar>P - A * t\<bar> \<le> 1801 * U"
    using rnd_step [of "- 1800" "A * t" 1800 1800] At unfolding U_def by auto
  have Bt: "137 \<le> B + t" "B + t \<le> 338" using B t by linarith+
  obtain S where S: "rnd (B + t) = Fin S" "137 \<le> S" "S \<le> 338" "\<bar>S - (B + t)\<bar> \<le> 339 * U"
    using rnd_step [of 137 "B + t" 338 338] Bt unfolding U_def by auto
  define g0 where "g0 = A * t / (B + t)"
  have g0: "\<bar>g0\<bar> \<le> 14"
  proof -
    have "\<bar>A * t\<bar> \<le> 1800" using At by linarith
    then show ?thesis unfolding g0_def using Bt(1) by (rule abs_div_bound) simp_all
  qed
  have PS: "- 14 \<le> P / S" "P / S \<le> 14"
  proof -
    have "\<bar>P\<bar> \<le> 1800" using P(2,3) by linarith
    then have "\<bar>P / S\<bar> \<le> 14" using S(2) by (rule abs_div_bound) simp_all
    then show "- 14 \<le> P / S" "P / S \<le> 14" by linarith+
  qed
  have PSg: "\<bar>P / S - g0\<bar> \<le> 48 * U"
  proof -
    have "\<bar>P / S - A * t / (B + t)\<bar> \<le> (1801 * U + 14 * (339 * U)) / 137"
      using Bt(1) S(2) P(4) S(4) g0 unfolding g0_def
      by (intro quotient_perturbation) simp_all
    also have "\<dots> \<le> 48 * U" using U by simp
    finally show ?thesis by (simp add: g0_def)
  qed
  obtain Q where Q: "rnd (P / S) = Fin Q" "- 14 \<le> Q" "Q \<le> 14" "\<bar>Q - P / S\<bar> \<le> 15 * U"
    using rnd_step [of "- 14" "P / S" 14 14] PS unfolding U_def by auto
  obtain G where G: "rnd (Q + 0) = Fin G" "- 14 \<le> G" "G \<le> 14" "\<bar>G - (Q + 0)\<bar> \<le> 15 * U"
    using rnd_step [of "- 14" "Q + 0" 14 14] Q(2,3) unfolding U_def by auto
  have Gg: "\<bar>G - g0\<bar> \<le> 78 * U" using G(4) Q(4) PSg by linarith
  have BG: "- 3332 \<le> B * G" "B * G \<le> 3332"
  proof -
    have "\<bar>B * G\<bar> \<le> 238 * 14"
      unfolding abs_mult using B G(2,3) by (intro mult_mono) simp_all
    then show "- 3332 \<le> B * G" "B * G \<le> 3332" by linarith+
  qed
  obtain N where N: "rnd (B * G) = Fin N" "- 3332 \<le> N" "N \<le> 3332" "\<bar>N - B * G\<bar> \<le> 3333 * U"
    using rnd_step [of "- 3332" "B * G" 3332 3332] BG unfolding U_def by auto
  have AG: "3 \<le> A + - G" "A + - G \<le> 32" using A G(2,3) by linarith+
  obtain D where D: "rnd (A + - G) = Fin D" "3 \<le> D" "D \<le> 32" "\<bar>D - (A + - G)\<bar> \<le> 33 * U"
    using rnd_step [of 3 "A + - G" 32 32] AG unfolding U_def by auto
  have ND: "- 1111 \<le> N / D" "N / D \<le> 1111"
  proof -
    have "\<bar>N\<bar> \<le> 3332" using N(2,3) by linarith
    then have "\<bar>N / D\<bar> \<le> 1111" using D(2) by (rule abs_div_bound) simp_all
    then show "- 1111 \<le> N / D" "N / D \<le> 1111" by linarith+
  qed
  obtain R where R: "rnd (N / D) = Fin R" "\<bar>R - N / D\<bar> \<le> 1112 * U"
    using rnd_step [of "- 1111" "N / D" 1111 1111] ND unfolding U_def by auto
  have exact: "B * g0 / (A - g0) = t" and pos: "0 < A - g0"
  proof -
    have Ag: "A - g0 = A * B / (B + t)"
      unfolding g0_def using Bt(1) by (simp add: field_simps)
    show "0 < A - g0" unfolding Ag using A B Bt by simp
    have nz: "A \<noteq> 0" "B \<noteq> 0" "B + t \<noteq> 0" using A B Bt by linarith+
    define s where "s = B + t"
    have "B * (A * t / s) / (A * B / s) = t" using nz by (simp add: s_def [symmetric])
    then have "B * g0 / (A * B / (B + t)) = t" unfolding g0_def s_def .
    then show "B * g0 / (A - g0) = t" unfolding Ag .
  qed
  have Ng: "\<bar>N - B * g0\<bar> \<le> 21897 * U"
  proof -
    have "\<bar>B * G - B * g0\<bar> = B * \<bar>G - g0\<bar>"
      using B by (simp add: abs_mult flip: right_diff_distrib)
    also have "\<dots> \<le> 238 * (78 * U)" using B Gg by (intro mult_mono) simp_all
    finally show ?thesis using N(4) by linarith
  qed
  have Dg: "\<bar>D - (A - g0)\<bar> \<le> 111 * U" using D(4) Gg by linarith
  have "\<bar>B * g0 / (A - g0)\<bar> \<le> 100" unfolding exact using t by linarith
  then have "\<bar>N / D - B * g0 / (A - g0)\<bar> \<le> (21897 * U + 100 * (111 * U)) / 3"
    using pos D(2) Ng Dg
    by (intro quotient_perturbation) simp_all
  then have "\<bar>N / D - t\<bar> \<le> 10999 * U" unfolding exact by simp
  then have Rt: "\<bar>R - t\<bar> \<le> 12111 * U" using R(2) by linarith
  have one: "rnd 1 = Fin 1" using rnd_of_int [of 1] by simp
  have S0: "S \<noteq> 0" and D0: "D \<noteq> 0" using S(2) D(2) by linarith+
  have dp: "dew_point_temperature L t 100 =
      ebind (py_div (fmul (Fin A) (Fin t)) (fadd (Fin B) (Fin t))) (\<lambda>q.
      ebind (py_div (Fin 100) (Fin 100)) (\<lambda>x.
      ebind (py_log L x) (\<lambda>l.
        py_div (fmul (Fin B) (fadd q l)) (fsub (Fin A) (fadd q l)))))"
    unfolding A_def B_def by (simp add: dew_point_temperature_def Let_def)
  have s1: "py_div (fmul (Fin A) (Fin t)) (fadd (Fin B) (Fin t)) = Inr (Fin Q)"
    using S0 by (simp add: py_div_def P S Q)
  have s2: "py_div (Fin 100) (Fin 100) = Inr (Fin 1)" by (simp add: py_div_def one)
  have s3: "py_log L (Fin 1) = Inr (Fin 0)" using L by (simp add: py_log_def log_one_def)
  have s4: "fadd (Fin Q) (Fin 0) = Fin G" using G(1) by simp
  have s5: "py_div (fmul (Fin B) (Fin G)) (fsub (Fin A) (Fin G)) = Inr (Fin R)"
    using D0 by (simp add: py_div_def fsub_def N D [simplified] R)
  have "dew_point_temperature L t 100 = Inr (Fin R)"
    by (simp only: dp s1 s2 s3 s4 s5 ebind_def sum.case)
  then show ?thesis using Rt by (simp add: U_def)
qed

lemma u53_small: "12111 * u53 \<le> 1 / 10 ^ 11"
  by (simp add: u53_def field_simps)

lemma log_one_cr: "log_one cr_libm"
  by (simp add: log_one_def)

subsection \<open>The doubles as a grid\<close>

lemma rnd_fin_mant0: "\<bar>round_even (x / quantum x)\<bar> \<le> 2 ^ 53"
proof (cases "x = 0")
  case True then show ?thesis by simp
next
  case False
  have "\<bar>x\<bar> < 2 powi (binade x + 1)" using False by (rule abs_less_binade)
  also have "\<dots> = 2 powi 53 * 2 powi (binade x - 52)"
    unfolding two_powi_mult by (rule arg_cong [of _ _ "power_int 2"]) simp
  finally have "\<bar>x\<bar> < 2 ^ 53 * quantum x" by (simp add: quantum_def)
  then have "\<bar>x\<bar> / quantum x < 2 ^ 53" by (simp add: field_simps)
  then have "\<bar>x / quantum x\<bar> < 2 ^ 53" by simp
  moreover have "(of_int (2 ^ 53) :: real) = 2 ^ 53" by simp
  ultimately have lo: "of_int (- (2 ^ 53)) \<le> x / quantum x"
    and hi: "x / quantum x \<le> of_int (2 ^ 53)"
    unfolding of_int_minus by linarith+
  have "- (2 ^ 53) \<le> round_even (x / quantum x)" using lo by (rule round_even_ge_int)
  moreover have "round_even (x / quantum x) \<le> 2 ^ 53" using hi by (rule round_even_le_int)
  ultimately show ?thesis by linarith
qed

lemma rnd_fin_mant:
  obtains m k where "rnd_fin x = of_int m * 2 powi k" "\<bar>m\<bar> < 2 ^ 53" "- 1074 \<le> k"
proof -
  define m0 where "m0 = round_even (x / quantum x)"
  define k0 where "k0 = binade x - 52"
  have r: "rnd_fin x = of_int m0 * 2 powi k0" by (simp add: rnd_fin_def m0_def k0_def quantum_def)
  have k0: "- 1074 \<le> k0" using binade_ge [of x] by (simp add: k0_def)
  have m0: "\<bar>m0\<bar> \<le> 2 ^ 53" unfolding m0_def by (rule rnd_fin_mant0)
  show ?thesis
  proof (cases "\<bar>m0\<bar> < 2 ^ 53")
    case True
    then show ?thesis using r k0 that by blast
  next
    case False
    then consider "m0 = 2 ^ 53" | "m0 = - (2 ^ 53)" using m0 by linarith
    then show ?thesis
    proof cases
      case 1
      have "rnd_fin x = 2 powi 53 * 2 powi k0" unfolding r 1 by simp
      then have "rnd_fin x = of_int 1 * 2 powi (k0 + 53)" unfolding two_powi_mult by (simp add: add.commute)
      then show ?thesis using k0 that [of 1 "k0 + 53"] by simp
    next
      case 2
      have "rnd_fin x = - (2 powi 53 * 2 powi k0)" unfolding r 2 by simp
      then have "rnd_fin x = of_int (- 1) * 2 powi (k0 + 53)" unfolding two_powi_mult by (simp add: add.commute)
      then show ?thesis using k0 that [of "- 1" "k0 + 53"] by simp
    qed
  qed
qed

lemma rnd_fin_idem [simp]: "rnd_fin (rnd_fin x) = rnd_fin x"
proof -
  obtain m k where mk: "rnd_fin x = of_int m * 2 powi k" "\<bar>m\<bar> < 2 ^ 53" "- 1074 \<le> k"
    by (rule rnd_fin_mant)
  show ?thesis unfolding mk(1) using mk(2,3) by (rule rnd_fin_repr)
qed

lemma rnd_fin_scale: "rnd_fin (rnd_fin x * 2 powi int n) = rnd_fin x * 2 powi int n"
proof -
  obtain m k where mk: "rnd_fin x = of_int m * 2 powi k" "\<bar>m\<bar> < 2 ^ 53" "- 1074 \<le> k"
    by (rule rnd_fin_mant)
  have "rnd_fin (of_int m * 2 powi (k + int n)) = of_int m * 2 powi (k + int n)"
    using mk(2,3) by (intro rnd_fin_repr) simp_all
  then show ?thesis unfolding mk(1) mult.assoc two_powi_mult .
qed

lemma rnd_fin_grid: "\<exists>n :: int. rnd_fin x = of_int n * 2 powi (- 1074)"
proof -
  obtain m k where mk: "rnd_fin x = of_int m * 2 powi k" "\<bar>m\<bar> < 2 ^ 53" "- 1074 \<le> k"
    by (rule rnd_fin_mant)
  have "(2::real) powi k = 2 powi int (nat (k + 1074)) * 2 powi (- 1074)"
    unfolding two_powi_mult using mk(3) by simp
  also have "(2::real) powi int (nat (k + 1074)) = of_int (2 ^ nat (k + 1074))"
    by (simp only: power_int_of_nat of_int_power of_int_numeral)
  finally have "rnd_fin x = of_int (m * 2 ^ nat (k + 1074)) * 2 powi (- 1074)"
    unfolding mk(1) by (simp only: of_int_mult mult.assoc)
  then show ?thesis by blast
qed

lemma lit_idem: "rnd_fin (lit x) = lit x"
  by (simp add: lit_def)

subsection \<open>Saturated air at a temperature beyond the spacing of the doubles\<close>

lemma rnd_absorb:
  assumes "c = 2 ^ 70" "0 \<le> x" "x < 2 ^ 17"
  shows "rnd (x + c) = Fin c"
proof -
  have b: "binade (x + c) = 70"
    using assms by (intro binade_eq) auto
  have q: "quantum (x + c) = 2 ^ 18" unfolding quantum_def b by simp
  have "\<bar>(x + c) / quantum (x + c) - of_int (2 ^ 52)\<bar> = x / 2 ^ 18"
    unfolding q using assms(1,2) by (simp add: field_simps)
  also have "\<dots> < 1 / 2" using assms(3) by (simp add: field_simps)
  finally have "round_even ((x + c) / quantum (x + c)) = 2 ^ 52" by (rule round_even_near)
  then have "rnd_fin (x + c) = of_int (2 ^ 52) * 2 ^ 18" unfolding rnd_fin_def q by simp
  then have "rnd_fin (x + c) = c" unfolding assms(1) by simp
  moreover have "\<bar>x + c\<bar> < overflow_bound" using assms by (simp add: overflow_bound_def)
  ultimately show ?thesis by (simp add: rnd_finite)
qed

lemma dew_point_at_2_70: "dew_point_temperature cr_libm (2 ^ 70) 100 = Inl ZeroDivisionError"
proof -
  define A where "A = lit 17.27"
  define B where "B = lit 237.7"
  define c :: real where "c = 2 ^ 70"
  have c: "c = 2 powi int 70" by (simp add: c_def)
  have A: "17 \<le> A" "A \<le> 18" and B: "237 \<le> B" "B \<le> 238"
    using lit_consts by (simp_all add: A_def B_def)
  have "rnd_fin (A * c) = A * c" unfolding A_def lit_def c by (rule rnd_fin_scale)
  moreover have "\<bar>A * c\<bar> < overflow_bound"
  proof -
    have "\<bar>A * c\<bar> \<le> 18 * 2 ^ 70" using A by (simp add: abs_mult c_def)
    also have "\<dots> < overflow_bound" by (simp add: overflow_bound_def)
    finally show ?thesis .
  qed
  ultimately have P: "rnd (A * c) = Fin (A * c)" by (simp add: rnd_finite)
  have S: "rnd (B + c) = Fin c" using B by (intro rnd_absorb c_def) simp_all
  have "rnd_fin A = A" unfolding A_def by (rule lit_idem)
  moreover have "\<bar>A\<bar> < overflow_bound"
  proof -
    have "\<bar>A\<bar> \<le> 18" using A by simp
    also have "\<dots> < overflow_bound" by (simp add: overflow_bound_def)
    finally show ?thesis .
  qed
  ultimately have Q: "rnd A = Fin A" by (simp add: rnd_finite)
  have c0: "c \<noteq> 0" by (simp add: c_def)
  have dp: "dew_point_temperature cr_libm c 100 =
      ebind (py_div (fmul (Fin A) (Fin c)) (fadd (Fin B) (Fin c))) (\<lambda>q.
      ebind (py_div (Fin 100) (Fin 100)) (\<lambda>x.
      ebind (py_log cr_libm x) (\<lambda>l.
        py_div (fmul (Fin B) (fadd q l)) (fsub (Fin A) (fadd q l)))))"
    unfolding A_def B_def by (simp add: dew_point_temperature_def Let_def)
  have one: "rnd 1 = Fin 1" using rnd_of_int [of 1] by simp
  have s1: "py_div (fmul (Fin A) (Fin c)) (fadd (Fin B) (Fin c)) = Inr (Fin A)"
    using c0 by (simp add: py_div_def P S Q)
  have s2: "py_div (Fin 100) (Fin 100) = Inr (Fin 1)" by (simp add: py_div_def one)
  have s3: "py_log cr_libm (Fin 1) = Inr (Fin 0)" by (simp add: py_log_def)
  have s4: "fadd (Fin A) (Fin 0) = Fin A" using Q by simp
  have s5: "py_div (fmul (Fin B) (Fin A)) (fsub (Fin A) (Fin A)) = Inl ZeroDivisionError"
    by (simp add: py_div_def fsub_def)
  have "dew_point_temperature cr_libm c 100 = Inl ZeroDivisionError"
    by (simp only: dp s1 s2 s3 s4 s5 ebind_def sum.case)
  then show ?thesis unfolding c_def .
qed

subsection \<open>Results that stay finite\<close>

lemma fw_Fin: "\<bar>x\<bar> \<le> of_int n \<Longrightarrow> finite_within n (Fin x)"
  by (simp add: finite_within_def)

lemma fw_rnd: "\<bar>x\<bar> \<le> of_int n \<Longrightarrow> n < 2 ^ 53 \<Longrightarrow> finite_within n (rnd x)"
  unfolding finite_within_def by (rule rnd_bounded)

lemma fw_fadd:
  assumes "finite_within a x" "finite_within b y" "a + b \<le> c" "c < 2 ^ 53"
  shows "finite_within c (fadd x y)"
proof -
  obtain r s where rs: "x = Fin r" "\<bar>r\<bar> \<le> of_int a" "y = Fin s" "\<bar>s\<bar> \<le> of_int b"
    using assms(1,2) by (auto simp: finite_within_def)
  have "of_int a + of_int b \<le> (of_int c :: real)" using assms(3) by linarith
  then have "\<bar>r + s\<bar> \<le> of_int c" using rs(2,4) by linarith
  then show ?thesis unfolding rs(1,3) fadd.simps using assms(4) by (rule fw_rnd)
qed

lemma fw_fneg: "finite_within a x \<Longrightarrow> finite_within a (fneg x)"
  by (auto simp: finite_within_def)

lemma fw_fsub:
  assumes "finite_within a x" "finite_within b y" "a + b \<le> c" "c < 2 ^ 53"
  shows "finite_within c (fsub x y)"
  unfolding fsub_def using assms(1) fw_fneg [OF assms(2)] assms(3,4) by (rule fw_fadd)

lemma fw_fmul:
  assumes "finite_within a x" "finite_within b y" "a * b \<le> c" "c < 2 ^ 53"
  shows "finite_within c (fmul x y)"
proof -
  obtain r s where rs: "x = Fin r" "\<bar>r\<bar> \<le> of_int a" "y = Fin s" "\<bar>s\<bar> \<le> of_int b"
    using assms(1,2) by (auto simp: finite_within_def)
  have "\<bar>r * s\<bar> \<le> of_int a * of_int b"
    unfolding abs_mult using rs(2,4) by (intro mult_mono) auto
  also have "\<dots> = of_int (a * b)" by simp
  also have "\<dots> \<le> of_int c" using assms(3) by (simp only: of_int_le_iff)
  finally show ?thesis unfolding rs(1,3) fmul.simps using assms(4) by (rule fw_rnd)
qed

lemma fw_atan:
  assumes "atan_range L" "finite_within a x"
  shows "finite_within 2 (py_atan L x)"
  using assms by (auto simp: finite_within_def atan_range_def py_atan_def)

lemma fw_lit:
  assumes "\<bar>x\<bar> \<le> of_int n" "0 \<le> n" "n < 2 ^ 53"
  shows "finite_within n (Fin (lit x))"
proof -
  have "of_int (- n) \<le> x" "x \<le> of_int n" using assms(1) by simp_all
  then have "of_int (- n) \<le> lit x \<and> lit x \<le> of_int n"
    using assms(2,3) by (intro lit_bounds) simp_all
  then show ?thesis by (simp add: finite_within_def) linarith
qed

lemma fw_sqrt:
  assumes "0 \<le> x" "x \<le> of_int (n * n)" "0 \<le> n" "n < 2 ^ 53"
  shows "finite_within n (rnd (sqrt x))"
proof -
  have "sqrt x \<le> sqrt (of_int (n * n))" using assms(2) by (rule real_sqrt_le_mono)
  also have "\<dots> = of_int n" using assms(3) by simp
  finally have "\<bar>sqrt x\<bar> \<le> of_int n" using assms(1) by simp
  then show ?thesis using assms(4) by (rule fw_rnd)
qed

lemma fw_fdiv:
  assumes "finite_within a x" "of_int dl \<le> d" "0 < dl" "a \<le> c * dl" "c < 2 ^ 53"
  shows "finite_within c (fdiv x (Fin d))"
proof -
  obtain r where r: "x = Fin r" "\<bar>r\<bar> \<le> of_int a"
    using assms(1) by (auto simp: finite_within_def)
  have "(of_int a :: real) \<le> of_int (c * dl)" using assms(4) by (simp only: of_int_le_iff)
  then have "(of_int a :: real) \<le> of_int c * of_int dl" by simp
  with r(2) assms(2) have "\<bar>r / d\<bar> \<le> of_int c"
    using assms(3) by (intro abs_div_bound [where a = "of_int a" and dl = "of_int dl"]) simp_all
  then show ?thesis unfolding r(1) fdiv.simps using assms(5) by (rule fw_rnd)
qed

subsection \<open>Doubles below zero\<close>

lemma is_double_grid:
  assumes "is_double x"
  obtains n :: int where "x = of_int n * 2 powi (- 1074)"
  using rnd_fin_grid [of x] assms by (auto simp: is_double_def)

lemma is_double_lit: "\<bar>x\<bar> < 2 ^ 53 \<Longrightarrow> is_double (lit x)"
proof -
  assume a: "\<bar>x\<bar> < 2 ^ 53"
  have "- (2 ^ 53) \<le> x" "x \<le> 2 ^ 53" using a by linarith+
  then have "rnd_fin (of_int (- (2 ^ 53))) \<le> rnd_fin x" "rnd_fin x \<le> rnd_fin (of_int (2 ^ 53))"
    by (intro rnd_fin_mono; simp)+
  moreover have "rnd_fin (of_int 1 * 2 powi 53) = of_int 1 * 2 powi 53"
    by (rule rnd_fin_repr) simp_all
  then have "rnd_fin (2 ^ 53) = 2 ^ 53" by simp
  moreover have "rnd_fin (- (2 ^ 53)) = - (2 ^ 53)"
    using \<open>rnd_fin (2 ^ 53) = 2 ^ 53\<close> by (simp only: rnd_fin_minus)
  ultimately have "\<bar>rnd_fin x\<bar> \<le> 2 ^ 53" by simp
  moreover have "(2 :: real) ^ 53 < overflow_bound" by (simp add: overflow_bound_def)
  ultimately show ?thesis by (simp add: is_double_def lit_def)
qed

lemma rnd_negative:
  assumes "is_double x" "is_double y" "x + y < 0"
  shows "rnd (x + y) = NInf \<or> (\<exists>r. rnd (x + y) = Fin r \<and> r < 0)"
proof -
  obtain n m :: int where nm: "x = of_int n * 2 powi (- 1074)" "y = of_int m * 2 powi (- 1074)"
    using assms(1,2) by (metis is_double_grid)
  define e :: real where "e = 2 powi (- 1074)"
  have e: "0 < e" by (simp add: e_def)
  have s: "x + y = of_int (n + m) * e" by (simp add: nm e_def algebra_simps)
  have "n + m < 0"
  proof (rule ccontr)
    assume "\<not> n + m < 0"
    then have "0 \<le> (of_int (n + m) :: real)" by simp
    then have "0 \<le> x + y" unfolding s using e by simp
    then show False using assms(3) by simp
  qed
  then have "(of_int (n + m) :: real) \<le> - 1" by linarith
  then have "of_int (n + m) * e \<le> - 1 * e" using e by (intro mult_right_mono) simp_all
  then have "x + y \<le> of_int (- 1) * 2 powi (- 1074)" by (simp add: s e_def)
  then have "rnd_fin (x + y) \<le> rnd_fin (of_int (- 1) * 2 powi (- 1074))" by (rule rnd_fin_mono)
  also have "\<dots> = of_int (- 1) * 2 powi (- 1074)" by (rule rnd_fin_repr) simp_all
  also have "\<dots> < 0" using e by (simp add: e_def)
  finally have "rnd_fin (x + y) < 0" .
  then show ?thesis using assms(3) by (simp add: rnd_def)
qed

lemma rnd_underflow:
  assumes "0 \<le> x" "x < eta"
  shows "rnd x = Fin 0"
proof (cases "x = 0")
  case True then show ?thesis by simp
next
  case False
  have el: "eta * 2 = 2 powi (- 1074)"
    unfolding eta_def using two_powi_Suc [of "- 1075"] by simp
  have "eta < 2 powi (- 1022)"
    unfolding eta_def by (rule power_int_strict_increasing) simp_all
  then have small: "\<bar>x\<bar> < 2 powi (- 1022)" using assms by linarith
  then have b: "binade x = - 1022" using False by (rule binade_small)
  have q: "quantum x = eta * 2" unfolding quantum_def b el by simp
  have "x / quantum x < 1 / 2" unfolding q using assms eta_pos by (simp add: field_simps)
  moreover have "0 \<le> x / quantum x" unfolding q using assms eta_pos by simp
  ultimately have "\<bar>x / quantum x - of_int 0\<bar> < 1 / 2" by (simp only: of_int_0 diff_zero abs_of_nonneg)
  then have "round_even (x / quantum x) = 0" by (rule round_even_near)
  then have "rnd_fin x = 0" by (simp add: rnd_fin_def)
  moreover have "2 powi (- 1022) < overflow_bound"
  proof -
    have "(2::real) powi (- 1022) \<le> 2 powi 0" by (rule power_int_increasing) simp_all
    also have "\<dots> < overflow_bound" by (simp add: overflow_bound_def)
    finally show ?thesis .
  qed
  ultimately show ?thesis using small by (simp add: rnd_def)
qed

lemma eta_twice: "eta * 2 = 2 powi (- 1074)"
  unfolding eta_def using two_powi_Suc [of "- 1075"] by simp

lemma quantum_subnormal:
  assumes "0 < x" "x \<le> eta * 2"
  shows "quantum x = eta * 2"
proof -
  have "eta * 2 < 2 powi (- 1022)"
    unfolding eta_twice by (rule power_int_strict_increasing) simp_all
  then have "\<bar>x\<bar> < 2 powi (- 1022)" using assms by linarith
  moreover have "x \<noteq> 0" using assms(1) by simp
  ultimately have "binade x = - 1022" by (rule binade_small)
  then show ?thesis unfolding quantum_def eta_twice by simp
qed

lemma rnd_fin_eta: "rnd_fin eta = 0"
proof -
  have "quantum eta = eta * 2" using eta_pos by (intro quantum_subnormal) simp_all
  then have "eta / quantum eta = 1 / 2" using eta_pos by simp
  then show ?thesis by (simp add: rnd_fin_def round_even_def)
qed

lemma rnd_underflow_le:
  assumes "0 \<le> x" "x \<le> eta"
  shows "rnd x = Fin 0"
proof -
  have "rnd_fin 0 \<le> rnd_fin x" "rnd_fin x \<le> rnd_fin eta"
    using assms by (intro rnd_fin_mono; simp)+
  then have "rnd_fin x = 0" by (simp add: rnd_fin_eta)
  moreover have "eta < overflow_bound"
  proof -
    have "eta \<le> 2 powi 0" unfolding eta_def by (rule power_int_increasing) simp_all
    also have "\<dots> < overflow_bound" by (simp add: overflow_bound_def)
    finally show ?thesis .
  qed
  then have "\<bar>x\<bar> < overflow_bound" using assms by linarith
  ultimately show ?thesis by (simp add: rnd_finite)
qed

lemma rnd_fin_smallest:
  assumes "eta * (51 / 50) \<le> x"
  shows "2 powi (- 1074) \<le> rnd_fin x"
proof -
  define y where "y = eta * (51 / 50)"
  have y: "0 < y" "y \<le> eta * 2" using eta_pos by (simp_all add: y_def)
  have q: "quantum y = eta * 2" using y by (rule quantum_subnormal)
  have r: "y / quantum y = 51 / 100" unfolding q using eta_pos by (simp add: y_def)
  have "\<bar>y / quantum y - of_int 1\<bar> < 1 / 2" unfolding r by simp
  then have "round_even (y / quantum y) = 1" by (rule round_even_near)
  then have "rnd_fin y = eta * 2" by (simp add: rnd_fin_def q)
  moreover have "rnd_fin y \<le> rnd_fin x" using assms unfolding y_def by (rule rnd_fin_mono)
  ultimately show ?thesis unfolding eta_twice by simp
qed

subsection \<open>Wet-bulb and blossom temperature\<close>

lemma pn_NonReal [simp]:
  "pn_add v NonReal = NonReal" "pn_add NonReal v = NonReal"
  "pn_sub v NonReal = NonReal" "pn_sub NonReal v = NonReal"
  "pn_mul v NonReal = NonReal" "pn_mul NonReal v = NonReal"
  by (cases v; simp)+

lemma lit_8_31: "8 \<le> lit 8.313659" "lit 8.313659 \<le> 9"
  using lit_bounds [of 8 "8.313659" 9] by simp_all

lemma sqrt_argument_negative:
  assumes "is_double rh" "rh < - lit 8.313659"
  shows "py_sqrt (fadd (Fin rh) (Fin (lit 8.313659))) = Inl ValueError"
proof -
  have "is_double (lit 8.313659)" by (rule is_double_lit) simp
  moreover have "rh + lit 8.313659 < 0" using assms(2) by linarith
  ultimately have "rnd (rh + lit 8.313659) = NInf \<or> (\<exists>r. rnd (rh + lit 8.313659) = Fin r \<and> r < 0)"
    using assms(1) by (intro rnd_negative)
  then show ?thesis unfolding fadd.simps by (auto simp: py_sqrt_def)
qed

lemma wet_bulb_domain_error:
  assumes "is_double rh" "rh < - lit 8.313659"
  shows "wet_bulb_temperature L t rh = Inl ValueError"
  unfolding wet_bulb_temperature_def sqrt_argument_negative [OF assms]
  by (simp add: ebind_def)

lemma sqrt_argument_small:
  assumes "- lit 8.313659 \<le> rh" "rh \<le> 100"
  shows "\<exists>x. py_sqrt (fadd (Fin rh) (Fin (lit 8.313659))) = Inr x \<and> finite_within 11 x"
proof -
  define x0 where "x0 = rnd_fin (rh + lit 8.313659)"
  have "of_int 0 \<le> rh + lit 8.313659" "rh + lit 8.313659 \<le> of_int 109"
    using assms lit_8_31 by simp_all
  then have "rnd (rh + lit 8.313659) = Fin (rnd_fin (rh + lit 8.313659)) \<and>
      of_int 0 \<le> rnd_fin (rh + lit 8.313659) \<and> rnd_fin (rh + lit 8.313659) \<le> of_int 109"
    by (rule rnd_between) simp_all
  then have x0: "rnd (rh + lit 8.313659) = Fin x0" "0 \<le> x0" "x0 \<le> 109"
    by (simp_all add: x0_def)
  have "finite_within 11 (rnd (sqrt x0))" using x0(2,3) by (intro fw_sqrt) simp_all
  moreover have "py_sqrt (fadd (Fin rh) (Fin (lit 8.313659))) = Inr (rnd (sqrt x0))"
    unfolding fadd.simps x0(1) using x0(2) by (simp add: py_sqrt_def)
  ultimately show ?thesis by blast
qed

lemma wet_bulb_complex:
  assumes "- lit 8.313659 \<le> rh" "rh < 0"
  shows "wet_bulb_temperature L t rh = Inr NonReal"
proof -
  obtain x where x: "py_sqrt (fadd (Fin rh) (Fin (lit 8.313659))) = Inr x"
    using sqrt_argument_small [of rh] assms by auto
  have p: "py_pow_1_5 L rh = Inr NonReal" using assms(2) by (simp add: py_pow_1_5_def)
  show ?thesis unfolding wet_bulb_temperature_def x p by (simp add: ebind_def)
qed

lemma pow_finite:
  assumes "pow_range L" "0 \<le> rh" "rh \<le> 100"
  shows "\<exists>x. py_pow_1_5 L rh = Inr (Float x) \<and> finite_within 1024 x"
proof (cases "rh = 0")
  case True
  then show ?thesis by (simp add: py_pow_1_5_def finite_within_def)
next
  case False
  then have "0 < rh \<and> rh \<le> 100" using assms(2,3) by simp
  then obtain r where "m_pow15 L rh = Fin r" "0 \<le> r" "r \<le> 1024"
    using assms(1) unfolding pow_range_def by blast
  then show ?thesis using False assms(2) by (simp add: py_pow_1_5_def finite_within_def)
qed

lemma wet_bulb_finite:
  assumes L: "atan_range L" "pow_range L" and rh: "0 \<le> rh" "rh \<le> 100" and t: "\<bar>t\<bar> \<le> 1000"
  shows "\<exists>w. wet_bulb_temperature L t rh = Inr (Float w) \<and> finite_within 4057 w"
proof -
  define c2 where "c2 = lit 0.151977"
  define c3 where "c3 = lit 1.676331"
  define c4 where "c4 = lit 0.00391838"
  define c5 where "c5 = lit 0.023101"
  define c6 where "c6 = lit 4.686035"
  have c2: "finite_within 1 (Fin c2)" unfolding c2_def by (rule fw_lit) simp_all
  have c3: "finite_within 2 (Fin c3)" unfolding c3_def by (rule fw_lit) simp_all
  have c4: "finite_within 1 (Fin c4)" unfolding c4_def by (rule fw_lit) simp_all
  have c5: "finite_within 1 (Fin c5)" unfolding c5_def by (rule fw_lit) simp_all
  have c6: "finite_within 5 (Fin c6)" unfolding c6_def by (rule fw_lit) simp_all
  have ft: "finite_within 1000 (Fin t)" using t by (intro fw_Fin) simp
  have fr: "finite_within 100 (Fin rh)" using rh by (intro fw_Fin) simp
  obtain sq where sq: "py_sqrt (fadd (Fin rh) (Fin (lit 8.313659))) = Inr sq" "finite_within 11 sq"
    using sqrt_argument_small [of rh] rh lit_8_31 by force
  obtain pw where pw: "py_pow_1_5 L rh = Inr (Float pw)" "finite_within 1024 pw"
    using pow_finite [OF L(2) rh] by blast
  define w where "w =
     fsub (fadd (fsub (fadd (fmul (Fin t) (py_atan L (fmul (Fin c2) sq)))
                            (py_atan L (fadd (Fin t) (Fin rh))))
                      (py_atan L (fsub (Fin rh) (Fin c3))))
                (fmul (fmul (Fin c4) pw) (py_atan L (fmul (Fin c5) (Fin rh)))))
          (Fin c6)"
  have wb: "wet_bulb_temperature L t rh = Inr (Float w)"
    unfolding wet_bulb_temperature_def sq(1) pw(1) w_def c2_def c3_def c4_def c5_def c6_def
    by (simp only: ebind_def sum.case pn_add.simps pn_sub.simps pn_mul.simps)
  have m1: "finite_within 11 (fmul (Fin c2) sq)" using c2 sq(2) by (rule fw_fmul) simp_all
  have a1: "finite_within 2 (py_atan L (fmul (Fin c2) sq))" using L(1) m1 by (rule fw_atan)
  have t1: "finite_within 2000 (fmul (Fin t) (py_atan L (fmul (Fin c2) sq)))"
    using ft a1 by (rule fw_fmul) simp_all
  have s2: "finite_within 1100 (fadd (Fin t) (Fin rh))" using ft fr by (rule fw_fadd) simp_all
  have a2: "finite_within 2 (py_atan L (fadd (Fin t) (Fin rh)))" using L(1) s2 by (rule fw_atan)
  have t2: "finite_within 2002 (fadd (fmul (Fin t) (py_atan L (fmul (Fin c2) sq)))
                                     (py_atan L (fadd (Fin t) (Fin rh))))"
    using t1 a2 by (rule fw_fadd) simp_all
  have s3: "finite_within 102 (fsub (Fin rh) (Fin c3))" using fr c3 by (rule fw_fsub) simp_all
  have a3: "finite_within 2 (py_atan L (fsub (Fin rh) (Fin c3)))" using L(1) s3 by (rule fw_atan)
  have t3: "finite_within 2004
      (fsub (fadd (fmul (Fin t) (py_atan L (fmul (Fin c2) sq)))
                  (py_atan L (fadd (Fin t) (Fin rh))))
            (py_atan L (fsub (Fin rh) (Fin c3))))"
    using t2 a3 by (rule fw_fsub) simp_all
  have m4: "finite_within 1024 (fmul (Fin c4) pw)" using c4 pw(2) by (rule fw_fmul) simp_all
  have m5: "finite_within 100 (fmul (Fin c5) (Fin rh))" using c5 fr by (rule fw_fmul) simp_all
  have a5: "finite_within 2 (py_atan L (fmul (Fin c5) (Fin rh)))" using L(1) m5 by (rule fw_atan)
  have t4: "finite_within 2048 (fmul (fmul (Fin c4) pw) (py_atan L (fmul (Fin c5) (Fin rh))))"
    using m4 a5 by (rule fw_fmul) simp_all
  have t5: "finite_within 4052
      (fadd (fsub (fadd (fmul (Fin t) (py_atan L (fmul (Fin c2) sq)))
                        (py_atan L (fadd (Fin t) (Fin rh))))
                  (py_atan L (fsub (Fin rh) (Fin c3))))
            (fmul (fmul (Fin c4) pw) (py_atan L (fmul (Fin c5) (Fin rh)))))"
    using t3 t4 by (rule fw_fadd) simp_all
  have "finite_within 4057 w"
    unfolding w_def using t5 c6 by (rule fw_fsub) simp_all
  then show ?thesis using wb by blast
qed

lemma blossom_domain_error:
  assumes "is_double rh" "rh < - lit 8.313659"
  shows "blossom_temp L t rh d = Inl ValueError"
  unfolding blossom_temp_def wet_bulb_domain_error [OF assms] by (simp add: ebind_def)

lemma blossom_complex:
  assumes "- lit 8.313659 \<le> rh" "rh < 0"
  shows "blossom_temp L t rh d = Inr NonReal"
  unfolding blossom_temp_def wet_bulb_complex [OF assms] by (simp add: ebind_def)

lemma blossom_finite:
  assumes L: "atan_range L" "pow_range L" and rh: "0 \<le> rh" "rh \<le> 100"
    and t: "\<bar>t\<bar> \<le> 1000" and d: "\<bar>d\<bar> \<le> 1000"
  shows "\<exists>w. blossom_temp L t rh d = Inr (Float w) \<and> finite_within 7057 w"
proof -
  obtain wb where wb: "wet_bulb_temperature L t rh = Inr (Float wb)" "finite_within 4057 wb"
    using wet_bulb_finite [OF L rh t] by blast
  have ft: "finite_within 1000 (Fin t)" using t by (intro fw_Fin) simp
  have fd: "finite_within 1000 (Fin d)" using d by (intro fw_Fin) simp
  have b: "blossom_temp L t rh d = Inr (Float (fsub (fsub (Fin t) (Fin d)) (fsub (Fin t) wb)))"
    unfolding blossom_temp_def wb(1)
    by (simp only: ebind_def sum.case pn_sub.simps)
  have d1: "finite_within 2000 (fsub (Fin t) (Fin d))" using ft fd by (rule fw_fsub) simp_all
  have d2: "finite_within 5057 (fsub (Fin t) wb)" using ft wb(2) by (rule fw_fsub) simp_all
  have "finite_within 7057 (fsub (fsub (Fin t) (Fin d)) (fsub (Fin t) wb))"
    using d1 d2 by (rule fw_fsub) simp_all
  then show ?thesis using b by blast
qed

subsection \<open>Dew point\<close>

lemma dew_point_unfold:
  assumes "0 < rh"
  shows "dew_point_temperature L t rh =
      ebind (py_div (fmul (Fin (lit 17.27)) (Fin t)) (fadd (Fin (lit 237.7)) (Fin t))) (\<lambda>q.
      ebind (py_div (Fin rh) (Fin 100)) (\<lambda>x.
      ebind (py_log L x) (\<lambda>l.
        py_div (fmul (Fin (lit 237.7)) (fadd q l)) (fsub (Fin (lit 17.27)) (fadd q l)))))"
  using assms by (simp add: dew_point_temperature_def Let_def)

lemma dew_point_dry: "rh \<le> 0 \<Longrightarrow> dew_point_temperature L t rh = Inr (Fin t)"
  by (simp add: dew_point_temperature_def)

lemma dew_point_pole:
  assumes "0 < rh"
  shows "dew_point_temperature L (- lit 237.7) rh = Inl ZeroDivisionError"
proof -
  have "py_div (fmul (Fin (lit 17.27)) (Fin (- lit 237.7))) (fadd (Fin (lit 237.7)) (Fin (- lit 237.7)))
      = Inl ZeroDivisionError"
    by (simp add: py_div_def)
  then show ?thesis unfolding dew_point_unfold [OF assms] by (simp only: ebind_def sum.case)
qed

lemma magnus_quotient:
  assumes "- 100 \<le> t" "t \<le> 100"
  shows "\<exists>q. py_div (fmul (Fin (lit 17.27)) (Fin t)) (fadd (Fin (lit 237.7)) (Fin t)) = Inr q \<and>
             finite_within 14 q"
proof -
  define A where "A = lit 17.27"
  define B where "B = lit 237.7"
  have A: "finite_within 18 (Fin A)" using lit_consts by (intro fw_Fin) (simp add: A_def)
  have B: "237 \<le> B" "B \<le> 238" using lit_consts by (simp_all add: B_def)
  have ft: "finite_within 100 (Fin t)" using assms by (intro fw_Fin) simp
  have P: "finite_within 1800 (fmul (Fin A) (Fin t))" using A ft by (rule fw_fmul) simp_all
  define S where "S = rnd_fin (B + t)"
  have "of_int 137 \<le> B + t" "B + t \<le> of_int 338" using B assms by simp_all
  then have "rnd (B + t) = Fin (rnd_fin (B + t)) \<and>
      of_int 137 \<le> rnd_fin (B + t) \<and> rnd_fin (B + t) \<le> of_int 338"
    by (rule rnd_between) simp_all
  then have S: "fadd (Fin B) (Fin t) = Fin S" "of_int 137 \<le> S" by (simp_all add: S_def)
  have "finite_within 14 (fdiv (fmul (Fin A) (Fin t)) (Fin S))"
    using P S(2) by (rule fw_fdiv) simp_all
  moreover have "S \<noteq> 0" using S(2) by simp
  ultimately show ?thesis
    unfolding A_def [symmetric] B_def [symmetric] S(1) by (simp add: py_div_def)
qed

lemma dew_point_log_zero:
  assumes "- 100 \<le> t" "t \<le> 100" "0 < rh" "rh \<le> 50 * 2 powi (- 1074)"
  shows "dew_point_temperature L t rh = Inl ValueError"
proof -
  obtain q where q: "py_div (fmul (Fin (lit 17.27)) (Fin t)) (fadd (Fin (lit 237.7)) (Fin t)) = Inr q"
    using magnus_quotient [OF assms(1,2)] by blast
  have "rh \<le> 100 * eta" using assms(4) unfolding eta_twice [symmetric] by simp
  then have "0 \<le> rh / 100" "rh / 100 \<le> eta" using assms(3) by simp_all
  then have "rnd (rh / 100) = Fin 0" by (rule rnd_underflow_le)
  then have x: "py_div (Fin rh) (Fin 100) = Inr (Fin 0)" by (simp add: py_div_def)
  have l: "py_log L (Fin 0) = Inl ValueError" by (simp add: py_log_def)
  show ?thesis unfolding dew_point_unfold [OF assms(3)] q x
    by (simp only: ebind_def sum.case l)
qed

lemma dew_point_finite:
  assumes L: "log_range L" and t: "- 100 \<le> t" "t \<le> 100"
    and rh: "51 * 2 powi (- 1074) \<le> rh" "rh \<le> 100"
  shows "\<exists>r. dew_point_temperature L t rh = Inr (Fin r)"
proof -
  define A where "A = lit 17.27"
  define B where "B = lit 237.7"
  have A: "17 \<le> A" "A \<le> 18" and B: "237 \<le> B" "B \<le> 238"
    using lit_consts by (simp_all add: A_def B_def)
  have rh0: "0 < rh" using rh(1) two_powi_pos [of "- 1074"] by linarith
  obtain q where "py_div (fmul (Fin A) (Fin t)) (fadd (Fin B) (Fin t)) = Inr q" "finite_within 14 q"
    using magnus_quotient [OF t] unfolding A_def B_def by blast
  then obtain Q where Q: "py_div (fmul (Fin A) (Fin t)) (fadd (Fin B) (Fin t)) = Inr (Fin Q)"
      "\<bar>Q\<bar> \<le> 14"
    by (auto simp: finite_within_def)
  define X where "X = rnd_fin (rh / 100)"
  have "102 * eta \<le> rh" using rh(1) unfolding eta_twice [symmetric] by simp
  then have "eta * (51 / 50) \<le> rh / 100" by simp
  then have Xlo: "2 powi (- 1074) \<le> X" unfolding X_def by (rule rnd_fin_smallest)
  have "of_int 0 \<le> rh / 100" "rh / 100 \<le> of_int 1" using rh0 rh(2) by simp_all
  then have "rnd (rh / 100) = Fin (rnd_fin (rh / 100)) \<and>
      of_int 0 \<le> rnd_fin (rh / 100) \<and> rnd_fin (rh / 100) \<le> of_int 1"
    by (rule rnd_between) simp_all
  then have X: "rnd (rh / 100) = Fin X" "X \<le> 1" by (simp_all add: X_def)
  have X0: "0 < X" using Xlo two_powi_pos [of "- 1074"] by linarith
  have x: "py_div (Fin rh) (Fin 100) = Inr (Fin X)" by (simp add: py_div_def X(1))
  define l where "l = m_log L X"
  have l: "- 1100 \<le> l" "l \<le> 0" using L Xlo X(2) unfolding log_range_def l_def by blast+
  have pl: "py_log L (Fin X) = Inr (Fin l)" using X0 by (simp add: py_log_def l_def)
  define G where "G = rnd_fin (Q + l)"
  have "of_int (- 1114) \<le> Q + l" "Q + l \<le> of_int 14" using Q(2) l by simp_all
  then have "rnd (Q + l) = Fin (rnd_fin (Q + l)) \<and>
      of_int (- 1114) \<le> rnd_fin (Q + l) \<and> rnd_fin (Q + l) \<le> of_int 14"
    by (rule rnd_between) simp_all
  then have G: "fadd (Fin Q) (Fin l) = Fin G" "- 1114 \<le> G" "G \<le> 14" by (simp_all add: G_def)
  have fG: "finite_within 1114 (Fin G)" using G(2,3) by (intro fw_Fin) simp
  have fB: "finite_within 238 (Fin B)" using B by (intro fw_Fin) simp
  have N: "finite_within 265132 (fmul (Fin B) (Fin G))" using fB fG by (rule fw_fmul) simp_all
  define D where "D = rnd_fin (A + - G)"
  have "of_int 3 \<le> A + - G" "A + - G \<le> of_int 1132" using A G(2,3) by simp_all
  then have "rnd (A + - G) = Fin (rnd_fin (A + - G)) \<and>
      of_int 3 \<le> rnd_fin (A + - G) \<and> rnd_fin (A + - G) \<le> of_int 1132"
    by (rule rnd_between) simp_all
  then have D: "fsub (Fin A) (Fin G) = Fin D" "of_int 3 \<le> D" by (simp_all add: D_def fsub_def)
  have "finite_within 88378 (fdiv (fmul (Fin B) (Fin G)) (Fin D))"
    using N D(2) by (rule fw_fdiv) simp_all
  then obtain r where r: "fdiv (fmul (Fin B) (Fin G)) (Fin D) = Fin r"
    by (auto simp: finite_within_def)
  have "D \<noteq> 0" using D(2) by simp
  then have s5: "py_div (fmul (Fin B) (Fin G)) (fsub (Fin A) (Fin G)) = Inr (Fin r)"
    unfolding D(1) using r by (simp add: py_div_def del: fmul.simps fdiv.simps)
  have "dew_point_temperature L t rh = Inr (Fin r)"
    unfolding dew_point_unfold [OF rh0] A_def [symmetric] B_def [symmetric]
    by (simp only: Q(1) x pl G(1) s5 ebind_def sum.case)
  then show ?thesis by blast
qed

subsection \<open>The correctly rounded library meets the requirements\<close>

lemma atan_range_cr: "atan_range cr_libm"
proof -
  have "\<bar>rnd_fin (arctan x)\<bar> \<le> 2" for x :: real
  proof -
    have "- (pi / 2) < arctan x" "arctan x < pi / 2" by (rule arctan_lbound, rule arctan_ubound)
    then have "of_int (- 2) \<le> arctan x" "arctan x \<le> of_int 2" using pi_less_4 by simp_all
    then have "of_int (- 2) \<le> rnd_fin (arctan x) \<and> rnd_fin (arctan x) \<le> of_int 2"
      by (rule rnd_fin_between) simp_all
    then show ?thesis by (simp add: abs_le_iff)
  qed
  then show ?thesis by (simp add: atan_range_def)
qed

lemma log_range_cr: "log_range cr_libm"
proof -
  have "- 1100 \<le> rnd_fin (ln x) \<and> rnd_fin (ln x) \<le> 0"
    if x: "2 powi (- 1074) \<le> x" "x \<le> 1" for x :: real
  proof -
    have x0: "0 < x" using x(1) two_powi_pos [of "- 1074"] by linarith
    have "(2::real) ^ 1074 \<le> exp (real 1074)" by (rule exp_ge_two_power)
    then have "exp (- 1074) \<le> 1 / (2::real) ^ 1074"
      by (simp add: exp_minus field_simps)
    also have "\<dots> = 2 powi (- 1074)" by (simp add: power_int_minus_divide)
    finally have "exp (- 1074) \<le> x" using x(1) by linarith
    then have "ln (exp (- 1074)) \<le> ln x" using x0 by (subst ln_le_cancel_iff) simp_all
    then have "of_int (- 1074) \<le> ln x" by simp
    moreover have "ln x \<le> of_int 0" using x0 x(2) by simp
    ultimately have "of_int (- 1074) \<le> rnd_fin (ln x) \<and> rnd_fin (ln x) \<le> of_int 0"
      by (rule rnd_fin_between) simp_all
    then show ?thesis by simp
  qed
  then show ?thesis by (simp add: log_range_def)
qed

lemma pow_range_cr: "pow_range cr_libm"
proof -
  have "\<exists>r. rnd (x powr (3 / 2)) = Fin r \<and> 0 \<le> r \<and> r \<le> 1024"
    if x: "0 < x" "x \<le> 100" for x :: real
  proof -
    have "x powr (3 / 2) \<le> 100 powr (3 / 2)" using x by (intro powr_mono2) simp_all
    also have "(100::real) powr (3 / 2) = (10 powr 2) powr (3 / 2)" by simp
    also have "\<dots> = 10 powr 3" unfolding powr_powr by simp
    also have "\<dots> = 1000" by simp
    finally have "x powr (3 / 2) \<le> of_int 1024" by simp
    moreover have "of_int 0 \<le> x powr (3 / 2)" by simp
    ultimately have "rnd (x powr (3 / 2)) = Fin (rnd_fin (x powr (3 / 2))) \<and>
        of_int 0 \<le> rnd_fin (x powr (3 / 2)) \<and> rnd_fin (x powr (3 / 2)) \<le> of_int 1024"
      by (intro rnd_between) simp_all
    then show ?thesis by simp
  qed
  then show ?thesis by (simp add: pow_range_def)
qed

lemma is_double_int: "\<bar>n\<bar> < 2 ^ 53 \<Longrightarrow> is_double (of_int n)"
proof -
  assume a: "\<bar>n\<bar> < 2 ^ 53"
  then have "\<bar>real_of_int n\<bar> < 2 ^ 53"
    by (metis of_int_abs of_int_less_iff of_int_numeral of_int_power)
  moreover have "(2::real) ^ 53 \<le> overflow_bound" by (simp add: overflow_bound_def)
  ultimately have "\<bar>real_of_int n\<bar> < overflow_bound" by linarith
  then show ?thesis using rnd_fin_of_int [OF a] by (simp add: is_double_def)
qed

lemma is_double_minus_ten: "is_double (- 10)"
  using is_double_int [of "- 10"] by simp

lemma tiny_humidity: "0 < (2::real) powi (- 1074)" "(2::real) powi (- 1074) \<le> 50 * 2 powi (- 1074)"
  by simp_all

lemma ordinary_humidity: "51 * (2::real) powi (- 1074) \<le> 80"
proof -
  have "(2::real) powi (- 1074) \<le> 2 powi 0" by (rule power_int_increasing) simp_all
  then show ?thesis by simp
qed

lemma fl_le_trans: "fl_le u v \<Longrightarrow> fl_le v w \<Longrightarrow> fl_le u w"
  by (cases u; cases v; cases w) simp_all

lemma gdp_lit_slope:
  assumes "get_damage_parameters s = Inr (a, b)"
  shows "lit b \<le> 3 / 2"
proof -
  have "(a, b) \<in> {(10, 15 / 10), (9, 14 / 10), (8, 13 / 10), (7, 12 / 10), (6, 11 / 10)}"
    by (rule gdp_cases [OF assms])
  then have "b \<le> 3 / 2" by auto
  then have "rnd_fin b \<le> rnd_fin (3 / 2)" by (rule rnd_fin_mono)
  then show ?thesis using lit_three_halves(2) by (simp add: lit_def)
qed

lemma exponent_bounded_below:
  assumes "get_damage_parameters stage = Inr (a, b)" "- 400 \<le> t"
  shows "fl_le (Fin (- 594)) (fadd (Fin (lit a)) (fmul (Fin (lit b)) (Fin t)))"
proof -
  have b: "1 \<le> lit b" "lit b \<le> 3 / 2" and a: "6 \<le> lit a"
    using gdp_lit [OF assms(1)] gdp_lit_slope [OF assms(1)] by simp_all
  have "lit b * (- 400) \<le> lit b * t" using assms(2) b(1) by (intro mult_left_mono) simp_all
  then have "of_int (- 600) \<le> lit b * t" using b(2) by simp
  then have "fl_le (rnd (of_int (- 600))) (rnd (lit b * t))" by (rule rnd_mono)
  moreover have "rnd (of_int (- 600)) = Fin (of_int (- 600))" by (rule rnd_of_int) simp
  ultimately have "fl_le (Fin (- 600)) (fmul (Fin (lit b)) (Fin t))" by simp
  then have 1: "fl_le (fadd (Fin (lit a)) (Fin (- 600))) (fadd (Fin (lit a)) (fmul (Fin (lit b)) (Fin t)))"
    by (rule fadd_Fin_mono)
  have "of_int (- 594) \<le> lit a + - 600" using a by simp
  then have "fl_le (rnd (of_int (- 594))) (rnd (lit a + - 600))" by (rule rnd_mono)
  moreover have "rnd (of_int (- 594)) = Fin (of_int (- 594))" by (rule rnd_of_int) simp
  ultimately have 2: "fl_le (Fin (- 594)) (fadd (Fin (lit a)) (Fin (- 600)))" by simp
  show ?thesis by (rule fl_le_trans [OF 2 1])
qed

lemma py_exp_returns:
  assumes "exp_finite L" "fl_le (Fin (- 594)) z"
  shows "\<exists>e. py_exp L (fneg z) = Inr e"
proof (cases z)
  case (Fin x)
  then have "- x \<le> 600" using assms(2) by simp
  then obtain r where "m_exp L (- x) = Fin r" using assms(1) unfolding exp_finite_def by blast
  then show ?thesis using Fin by (simp add: py_exp_def)
qed (use assms(2) in \<open>simp_all add: py_exp_def\<close>)

lemma damage_curve_no_overflow:
  assumes "exp_finite L" "get_damage_parameters stage = Inr (a, b)" "- 400 \<le> t"
  shows "damage_curve L (Fin t) stage \<noteq> Inl OverflowError"
proof -
  obtain e where "py_exp L (fneg (fadd (Fin (lit a)) (fmul (Fin (lit b)) (Fin t)))) = Inr e"
    using py_exp_returns [OF assms(1) exponent_bounded_below [OF assms(2,3)]] by blast
  then show ?thesis
    unfolding damage_curve_unfold [OF assms(2)] by (simp add: ebind_def py_div_def)
qed

lemma exp_finite_cr: "exp_finite cr_libm"
proof -
  have "\<exists>r. rnd (exp x) = Fin r" if "x \<le> 600" for x :: real
  proof -
    have "exp x \<le> exp (real 600)" using that by simp
    also have "\<dots> = exp 1 ^ 600" by (simp add: exp_of_nat_mult [symmetric])
    also have "\<dots> \<le> 3 ^ 600" by (rule power_mono) (use exp_le in simp_all)
    also have "\<dots> < overflow_bound" by (simp add: overflow_bound_def)
    finally have "\<bar>exp x\<bar> < overflow_bound" by simp
    then show ?thesis by (simp add: rnd_finite)
  qed
  then show ?thesis by (simp add: exp_finite_def)
qed

section \<open>Numeric field extraction\<close>

text \<open>
  On a record in which no listed key makes the extraction stop early, the function
  returns what the specification describes: the value of the first usable key, or null.
  A Value that \<open>float()\<close> cannot read does not stop it: the next key is tried.
\<close>

lemma py_float_errors:
  "py_float f v = Inl e \<Longrightarrow> e = ValueError \<or> e = TypeError \<or> e = OverflowError"
  by (cases v) (auto split: option.splits if_splits)

lemma get_cimis_value_agrees:
  assumes "\<forall>key \<in> set keys. \<not> returns_early f (JObj kvs) key"
  shows "get_cimis_value f (JObj kvs) keys = Inr (spec_first_usable_value f (JObj kvs) keys)"
  using assms
proof (induction keys)
  case Nil
  then show ?case by simp
next
  case (Cons key keys)
  then have IH: "get_cimis_value f (JObj kvs) keys = Inr (spec_first_usable_value f (JObj kvs) keys)"
    and ne: "\<not> returns_early f (JObj kvs) key"
    by simp_all
  show ?case
    using ne IH
    by (auto simp: returns_early_def usable_value_def ebind_def Let_def
          split: option.splits json.splits sum.splits dest: py_float_errors)
qed

lemma parse_decimal_not_a_number: "parse_decimal ''n/a'' = None"
  by code_simp

lemma get_cimis_value_continues_after_unparseable:
  "get_cimis_value parse_decimal unparseable_first_key_record [''HlyAirTmp'', ''hly-air-tmp'']
     = Inr (Some 5)"
  by (simp add: unparseable_first_key_record_def value_object_def ebind_def
        parse_decimal_not_a_number parse_decimal_examples)

text \<open>
  C1. Numeric field extraction is specified to return the value of the first listed key
  that is present with a non-empty, numerically parseable Value, and to try the fallback
  keys when the first listed key is present but empty. On a record whose primary key
  \<open>HlyAirTmp\<close> has the empty Value and whose fallback key \<open>hly-air-tmp\<close> has the Value
  \<open>5.00\<close>, the function returns null at the empty Value without looking at the fallback
  key, while the specified result is 5.
\<close>

theorem get_cimis_value_stops_at_empty_value:
  "get_cimis_value parse_decimal empty_first_key_record [''HlyAirTmp'', ''hly-air-tmp''] = Inr None \<and>
   spec_first_usable_value parse_decimal empty_first_key_record [''HlyAirTmp'', ''hly-air-tmp'']
     = Some 5"
  by (simp add: empty_first_key_record_def value_object_def ebind_def usable_value_def
        parse_decimal_examples)

section \<open>Stage damage model\<close>

text \<open>
  C8, as claimed: every stage name that is not one of the five configured names raises.
  The name \<open>Pinkbud\<close> is not among the five names, and the lookup returns \<open>(10.0, 1.5)\<close>
  for it, because the name is lowercased before it is compared.
\<close>

theorem damage_parameters_capitalised_name:
  "''Pinkbud'' \<notin> set stage_names \<and> get_damage_parameters ''Pinkbud'' = Inr (10, 15 / 10)"
  using gdp_lower [of "''Pinkbud''"]
  by (simp add: stage_names_def lower_examples gdp_configured)

text \<open>
  C8, amended. Every stage name whose lowercase form is not one of the five configured
  names raises ValueError, and no default is returned; each of the five configured names
  returns its fixed pair \<open>(a, b)\<close>.
\<close>

theorem damage_parameters_unknown_stage:
  "(lower stage \<notin> set stage_names \<longrightarrow> get_damage_parameters stage = Inl ValueError) \<and>
   get_damage_parameters ''pinkbud'' = Inr (10, 15 / 10) \<and>
   get_damage_parameters ''fullbloom'' = Inr (9, 14 / 10) \<and>
   get_damage_parameters ''petalfall'' = Inr (8, 13 / 10) \<and>
   get_damage_parameters ''fruitset'' = Inr (7, 12 / 10) \<and>
   get_damage_parameters ''smallnut'' = Inr (6, 11 / 10)"
  using gdp_error [of stage] gdp_configured by simp

theorem damage_parameters_unknown_stage_witness:
  "get_damage_parameters ''budswell'' = Inl ValueError"
proof -
  have "lower ''budswell'' \<notin> set stage_names"
    by (simp add: stage_names_def lower_def lower_char_def)
  then show ?thesis
    using damage_parameters_unknown_stage [of "''budswell''"] by simp
qed

text \<open>
  C10. The damage parameter lookup is case-insensitive: a stage name and its lowercase
  form have the same result; the lookup succeeds when the lowercase form is one of the
  five configured names, and it raises exactly when the lowercase form is none of them.
  So \<open>Pinkbud\<close> and \<open>FULLBLOOM\<close> return the pairs of \<open>pinkbud\<close> and \<open>fullbloom\<close>.
\<close>

theorem damage_parameters_case_insensitive:
  "get_damage_parameters stage = get_damage_parameters (lower stage) \<and>
   (lower stage \<in> set stage_names \<longrightarrow> (\<exists>a b. get_damage_parameters stage = Inr (a, b))) \<and>
   ((\<exists>e. get_damage_parameters stage = Inl e) \<longleftrightarrow> lower stage \<notin> set stage_names) \<and>
   get_damage_parameters ''Pinkbud'' = Inr (10, 15 / 10) \<and>
   get_damage_parameters ''FULLBLOOM'' = Inr (9, 14 / 10)"
proof (intro conjI impI)
  show "get_damage_parameters stage = get_damage_parameters (lower stage)"
    by (rule gdp_lower [symmetric])
  show "\<exists>a b. get_damage_parameters stage = Inr (a, b)" if "lower stage \<in> set stage_names"
    using that gdp_error_iff [of stage] by (cases "get_damage_parameters stage") auto
  show "(\<exists>e. get_damage_parameters stage = Inl e) \<longleftrightarrow> lower stage \<notin> set stage_names"
    by (rule gdp_error_iff)
  show "get_damage_parameters ''Pinkbud'' = Inr (10, 15 / 10)"
    using gdp_lower [of "''Pinkbud''"] by (simp add: lower_examples gdp_configured)
  show "get_damage_parameters ''FULLBLOOM'' = Inr (9, 14 / 10)"
    using gdp_lower [of "''FULLBLOOM''"] by (simp add: lower_examples gdp_configured)
qed

theorem damage_parameters_case_insensitive_witness:
  "\<exists>a b. get_damage_parameters ''SmallNut'' = Inr (a, b)"
proof -
  have "lower ''SmallNut'' \<in> set stage_names"
    by (simp add: lower_examples stage_names_def)
  then show ?thesis
    using damage_parameters_case_insensitive [of "''SmallNut''"] by blast
qed

text \<open>
  C2, as claimed: for every finite temperature and every configured stage the damage
  probability is strictly between 0 and 1 and the call does not fail, a guard keeping
  the exponential from overflowing. There is no guard: for the stage \<open>pinkbud\<close> the
  call at \<open>-1000\<close> raises OverflowError, the call at 30 returns exactly \<open>1.0\<close>, and the
  call at the double \<open>-3 * 2^1022\<close> returns exactly \<open>0.0\<close>.
\<close>

theorem damage_curve_bounds_attained:
  "damage_curve cr_libm (Fin (- 1000)) ''pinkbud'' = Inl OverflowError \<and>
   damage_curve cr_libm (Fin 30) ''pinkbud'' = Inr (Fin 1) \<and>
   is_double (- (3 * 2 ^ 1022)) \<and>
   damage_curve cr_libm (Fin (- (3 * 2 ^ 1022))) ''pinkbud'' = Inr (Fin 0)"
  using dc_m1000 dc_sat [of 30] is_double_big dc_zero [of cr_libm] by simp

text \<open>
  C2, amended. For every configured stage and every finite temperature, \<open>damage_curve\<close>
  either raises OverflowError or returns a double \<open>p\<close> with \<open>0 \<le> p \<le> 1\<close>; from
  \<open>-400\<close> degrees upwards it returns. This asks of the library that an exponential is
  an infinity or a number that is not negative, and for the second part that the
  exponential of an argument up to 600 is finite.
\<close>

theorem damage_curve_outcomes:
  assumes "exp_range L" and "get_damage_parameters stage = Inr (a, b)"
  shows "(damage_curve L (Fin t) stage = Inl OverflowError \<or>
          (\<exists>p. damage_curve L (Fin t) stage = Inr (Fin p) \<and> 0 \<le> p \<and> p \<le> 1)) \<and>
         (exp_finite L \<and> - 400 \<le> t \<longrightarrow>
          (\<exists>p. damage_curve L (Fin t) stage = Inr (Fin p) \<and> 0 \<le> p \<and> p \<le> 1))"
  using damage_curve_range [OF assms, of t] damage_curve_no_overflow [OF _ assms(2), of L t]
  by blast

theorem damage_curve_outcomes_witness:
  "exp_range cr_libm \<and> get_damage_parameters ''pinkbud'' = Inr (10, 15 / 10) \<and>
   exp_finite cr_libm \<and> - 400 \<le> (- 5 :: real) \<and>
   (\<exists>p. damage_curve cr_libm (Fin (- 5)) ''pinkbud'' = Inr (Fin p) \<and> 0 \<le> p \<and> p \<le> 1)"
proof -
  have "- 400 \<le> (- 5 :: real)" by simp
  then show ?thesis
    using damage_curve_outcomes [OF exp_range_cr gdp_configured(1), of "- 5"]
      exp_range_cr gdp_configured(1) exp_finite_cr
    by blast
qed

text \<open>
  C6, as claimed: for temperatures \<open>t1 < t2\<close> the damage probability at \<open>t1\<close> is strictly
  below the one at \<open>t2\<close>. For the stage \<open>pinkbud\<close> the calls at 30 and at 40 both return
  exactly \<open>1.0\<close>.
\<close>

theorem damage_curve_plateau:
  "(30 :: real) < 40 \<and>
   damage_curve cr_libm (Fin 30) ''pinkbud'' = Inr (Fin 1) \<and>
   damage_curve cr_libm (Fin 40) ''pinkbud'' = Inr (Fin 1) \<and>
   \<not> strictly_below (damage_curve cr_libm (Fin 30) ''pinkbud'')
                     (damage_curve cr_libm (Fin 40) ''pinkbud'')"
  using dc_sat [of 30] dc_sat [of 40] by (simp add: strictly_below_def)

text \<open>
  C6, amended. For every stage and temperatures \<open>t1 \<le> t2\<close>: when both calls of
  \<open>damage_curve\<close> return, the probability at \<open>t1\<close> is at most the probability at
  \<open>t2\<close>. This asks of the library that the exponential is monotone and not negative.
\<close>

theorem damage_curve_monotone:
  assumes "exp_range L" and "exp_monotone L"
    and "t1 \<le> t2"
    and "damage_curve L (Fin t1) stage = Inr p1"
    and "damage_curve L (Fin t2) stage = Inr p2"
  shows "fl_le p1 p2"
proof -
  obtain a b where ab: "get_damage_parameters stage = Inr (a, b)"
    using assms(4) by (cases "get_damage_parameters stage") (auto simp: damage_curve_def ebind_def)
  have b: "0 < lit b" using gdp_lit [OF ab] by linarith
  define z where "z t = fadd (Fin (lit a)) (fmul (Fin (lit b)) (Fin t))" for t
  have zle: "fl_le (z t1) (z t2)"
    unfolding z_def by (intro fadd_Fin_mono fmul_pos_mono b assms(3))
  then have nle: "fl_le (fneg (z t2)) (fneg (z t1))" by (rule fneg_antimono)
  have nn: "fneg (z t1) \<noteq> NaN" "fneg (z t2) \<noteq> NaN"
    using fl_le_not_NaN [OF nle] by simp_all
  have dc: "damage_curve L (Fin t) stage =
      ebind (py_exp L (fneg (z t))) (\<lambda>e. py_div (Fin 1) (fadd (Fin 1) e))" for t
    unfolding z_def by (rule damage_curve_unfold [OF ab])
  obtain e1 where e1: "py_exp L (fneg (z t1)) = Inr e1"
    using assms(4) dc [of t1] by (cases "py_exp L (fneg (z t1))") (auto simp: ebind_def)
  obtain e2 where e2: "py_exp L (fneg (z t2)) = Inr e2"
    using assms(5) dc [of t2] by (cases "py_exp L (fneg (z t2))") (auto simp: ebind_def)
  have ele: "fl_le e2 e1" by (rule py_exp_mono [OF assms(1,2) nle e2 e1])
  have v1: "e1 = PInf \<or> (\<exists>r. e1 = Fin r \<and> 0 \<le> r)" by (rule py_exp_value [OF assms(1) nn(1) e1])
  have v2: "e2 = PInf \<or> (\<exists>r. e2 = Fin r \<and> 0 \<le> r)" by (rule py_exp_value [OF assms(1) nn(2) e2])
  have d1: "fadd (Fin 1) e1 = PInf \<or> (\<exists>y. fadd (Fin 1) e1 = Fin y \<and> 1 \<le> y)"
    by (rule one_plus_cases [OF v1])
  have d2: "fadd (Fin 1) e2 = PInf \<or> (\<exists>y. fadd (Fin 1) e2 = Fin y \<and> 1 \<le> y)"
    by (rule one_plus_cases [OF v2])
  have dle: "fl_le (fadd (Fin 1) e2) (fadd (Fin 1) e1)" by (rule fadd_Fin_mono [OF ele])
  have nz: "fadd (Fin 1) e1 \<noteq> Fin 0" "fadd (Fin 1) e2 \<noteq> Fin 0" using d1 d2 by auto
  have p1: "p1 = fdiv (Fin 1) (fadd (Fin 1) e1)"
    using assms(4) nz(1) by (simp add: dc e1 ebind_def py_div_def)
  have p2: "p2 = fdiv (Fin 1) (fadd (Fin 1) e2)"
    using assms(5) nz(2) by (simp add: dc e2 ebind_def py_div_def)
  show ?thesis unfolding p1 p2 by (rule recip_antimono [OF dle d1 d2])
qed

theorem damage_curve_monotone_witness:
  "exp_range cr_libm \<and> exp_monotone cr_libm \<and> - (3 * 2 ^ 1022) \<le> (30 :: real) \<and>
   damage_curve cr_libm (Fin (- (3 * 2 ^ 1022))) ''pinkbud'' = Inr (Fin 0) \<and>
   damage_curve cr_libm (Fin 30) ''pinkbud'' = Inr (Fin 1) \<and>
   fl_le (Fin 0) (Fin 1)"
proof -
  have le: "- (3 * 2 ^ 1022) \<le> (30 :: real)" by simp
  have "fl_le (Fin 0) (Fin 1)"
    by (rule damage_curve_monotone [OF exp_range_cr exp_monotone_cr le dc_zero dc_sat]) simp
  then show ?thesis
    using exp_range_cr exp_monotone_cr le dc_zero [of cr_libm] dc_sat [of 30] by blast
qed

section \<open>Physical quantities\<close>

text \<open>
  C3, as claimed: the three functions return a real result for all real inputs and
  never raise. With air temperature 5 and whatever the library: at humidity \<open>-10\<close> the
  wet-bulb and the blossom temperature raise ValueError, at humidity \<open>-1\<close> their result
  is a complex number; the dew point raises ZeroDivisionError at the air temperature
  \<open>-237.7\<close> and ValueError at the humidity \<open>2^-1074\<close>, the smallest positive double.
\<close>

theorem physical_quantities_not_total:
  "\<forall>L. wet_bulb_temperature L 5 (- 10) = Inl ValueError \<and>
       blossom_temp L 5 (- 10) 1 = Inl ValueError \<and>
       wet_bulb_temperature L 5 (- 1) = Inr NonReal \<and>
       blossom_temp L 5 (- 1) 1 = Inr NonReal \<and>
       dew_point_temperature L (- lit 237.7) 80 = Inl ZeroDivisionError \<and>
       dew_point_temperature L 5 (2 powi (- 1074)) = Inl ValueError"
proof -
  have a: "- 10 < - lit 8.313659" "- lit 8.313659 \<le> - 1" "(- 1 :: real) < 0"
    using lit_8_31 by simp_all
  show ?thesis
    using wet_bulb_domain_error [OF is_double_minus_ten a(1)]
      blossom_domain_error [OF is_double_minus_ten a(1)]
      wet_bulb_complex [OF a(2,3)] blossom_complex [OF a(2,3)]
      dew_point_pole [of 80]
      dew_point_log_zero [of 5 "2 powi (- 1074)", OF _ _ tiny_humidity]
    by simp
qed

text \<open>
  C3, amended. \<open>wet_bulb_temperature\<close> and \<open>blossom_temp\<close> raise ValueError for a
  humidity (a double) below \<open>-8.313659\<close>, return a complex number for a humidity from
  \<open>-8.313659\<close> up to but excluding 0, and return a finite float for a humidity from 0 to
  100 with air temperature and orchard offset of magnitude at most 1000.
  \<open>dew_point_temperature\<close> returns the air temperature for a humidity that is not
  positive; for a positive humidity it raises ZeroDivisionError at the air temperature
  \<open>-237.7\<close>; for an air temperature from \<open>-100\<close> to 100 it raises ValueError when the
  humidity is at most \<open>50 * 2^-1074\<close> (the quotient \<open>humidity / 100.0\<close> rounds to zero)
  and returns a finite float when the humidity is from \<open>51 * 2^-1074\<close>, the next double,
  to 100. This asks of the library that an arc tangent is at most 2 in magnitude, that
  \<open>x ** 1.5\<close> is between 0 and 1024 for \<open>x\<close> up to 100, and that the logarithm of a
  double up to \<open>1.0\<close> lies between \<open>-1100\<close> and 0.
\<close>

theorem physical_quantities_outcomes:
  assumes "atan_range L" and "pow_range L" and "log_range L"
  shows
    "(is_double rh \<and> rh < - lit 8.313659 \<longrightarrow>
        wet_bulb_temperature L t rh = Inl ValueError \<and>
        blossom_temp L t rh d = Inl ValueError) \<and>
     (- lit 8.313659 \<le> rh \<and> rh < 0 \<longrightarrow>
        wet_bulb_temperature L t rh = Inr NonReal \<and>
        blossom_temp L t rh d = Inr NonReal) \<and>
     (0 \<le> rh \<and> rh \<le> 100 \<and> \<bar>t\<bar> \<le> 1000 \<and> \<bar>d\<bar> \<le> 1000 \<longrightarrow>
        (\<exists>r. wet_bulb_temperature L t rh = Inr (Float (Fin r))) \<and>
        (\<exists>r. blossom_temp L t rh d = Inr (Float (Fin r)))) \<and>
     (rh \<le> 0 \<longrightarrow> dew_point_temperature L t rh = Inr (Fin t)) \<and>
     (0 < rh \<longrightarrow> dew_point_temperature L (- lit 237.7) rh = Inl ZeroDivisionError) \<and>
     (- 100 \<le> t \<and> t \<le> 100 \<and> 0 < rh \<and> rh \<le> 50 * 2 powi (- 1074) \<longrightarrow>
        dew_point_temperature L t rh = Inl ValueError) \<and>
     (- 100 \<le> t \<and> t \<le> 100 \<and> 51 * 2 powi (- 1074) \<le> rh \<and> rh \<le> 100 \<longrightarrow>
        (\<exists>r. dew_point_temperature L t rh = Inr (Fin r)))"
proof (intro conjI impI; (elim conjE)?)
  assume "is_double rh" "rh < - lit 8.313659"
  then show "wet_bulb_temperature L t rh = Inl ValueError"
    and "blossom_temp L t rh d = Inl ValueError"
    by (rule wet_bulb_domain_error, rule blossom_domain_error)
next
  assume "- lit 8.313659 \<le> rh" "rh < 0"
  then show "wet_bulb_temperature L t rh = Inr NonReal"
    and "blossom_temp L t rh d = Inr NonReal"
    by (rule wet_bulb_complex, rule blossom_complex)
next
  assume a: "0 \<le> rh" "rh \<le> 100" "\<bar>t\<bar> \<le> 1000" "\<bar>d\<bar> \<le> 1000"
  show "\<exists>r. wet_bulb_temperature L t rh = Inr (Float (Fin r))"
    using wet_bulb_finite [OF assms(1,2) a(1,2,3)] by (auto simp: finite_within_def)
  show "\<exists>r. blossom_temp L t rh d = Inr (Float (Fin r))"
    using blossom_finite [OF assms(1,2) a] by (auto simp: finite_within_def)
next
  assume "rh \<le> 0"
  then show "dew_point_temperature L t rh = Inr (Fin t)" by (rule dew_point_dry)
next
  assume "0 < rh"
  then show "dew_point_temperature L (- lit 237.7) rh = Inl ZeroDivisionError"
    by (rule dew_point_pole)
next
  assume "- 100 \<le> t" "t \<le> 100" "0 < rh" "rh \<le> 50 * 2 powi (- 1074)"
  then show "dew_point_temperature L t rh = Inl ValueError" by (rule dew_point_log_zero)
next
  assume "- 100 \<le> t" "t \<le> 100" "51 * 2 powi (- 1074) \<le> rh" "rh \<le> 100"
  then show "\<exists>r. dew_point_temperature L t rh = Inr (Fin r)"
    by (rule dew_point_finite [OF assms(3)])
qed

theorem physical_quantities_outcomes_witness:
  "atan_range cr_libm \<and> pow_range cr_libm \<and> log_range cr_libm \<and>
   is_double (- 10) \<and> - 10 < - lit 8.313659 \<and>
   wet_bulb_temperature cr_libm 5 (- 10) = Inl ValueError \<and>
   blossom_temp cr_libm 5 (- 10) 1 = Inl ValueError \<and>
   wet_bulb_temperature cr_libm 5 (- 1) = Inr NonReal \<and>
   blossom_temp cr_libm 5 (- 1) 1 = Inr NonReal \<and>
   (\<exists>r. wet_bulb_temperature cr_libm 5 80 = Inr (Float (Fin r))) \<and>
   (\<exists>r. blossom_temp cr_libm 5 80 1 = Inr (Float (Fin r))) \<and>
   dew_point_temperature cr_libm 5 0 = Inr (Fin 5) \<and>
   dew_point_temperature cr_libm (- lit 237.7) 80 = Inl ZeroDivisionError \<and>
   dew_point_temperature cr_libm 5 (2 powi (- 1074)) = Inl ValueError \<and>
   (\<exists>r. dew_point_temperature cr_libm 5 80 = Inr (Fin r))"
proof -
  note T = physical_quantities_outcomes [OF atan_range_cr pow_range_cr log_range_cr]
  have a: "- 10 < - lit 8.313659" "- lit 8.313659 \<le> - 1"
    using lit_8_31 by simp_all
  have 1: "wet_bulb_temperature cr_libm 5 (- 10) = Inl ValueError \<and>
      blossom_temp cr_libm 5 (- 10) 1 = Inl ValueError"
    using T [where rh = "- 10" and t = 5 and d = 1] is_double_minus_ten a(1) by blast
  have 2: "wet_bulb_temperature cr_libm 5 (- 1) = Inr NonReal \<and>
      blossom_temp cr_libm 5 (- 1) 1 = Inr NonReal"
    using T [where rh = "- 1" and t = 5 and d = 1] a(2) by simp
  have 3: "(\<exists>r. wet_bulb_temperature cr_libm 5 80 = Inr (Float (Fin r))) \<and>
      (\<exists>r. blossom_temp cr_libm 5 80 1 = Inr (Float (Fin r))) \<and>
      dew_point_temperature cr_libm (- lit 237.7) 80 = Inl ZeroDivisionError \<and>
      (\<exists>r. dew_point_temperature cr_libm 5 80 = Inr (Fin r))"
    using T [where rh = 80 and t = 5 and d = 1] ordinary_humidity by simp
  have 4: "dew_point_temperature cr_libm 5 0 = Inr (Fin 5)"
    using T [where rh = 0 and t = 5 and d = 1] by simp
  have 5: "dew_point_temperature cr_libm 5 (2 powi (- 1074)) = Inl ValueError"
    using T [where rh = "2 powi (- 1074)" and t = 5 and d = 1] tiny_humidity by simp
  show ?thesis
    using atan_range_cr pow_range_cr log_range_cr is_double_minus_ten a(1) 1 2 3 4 5 by blast
qed

text \<open>
  C9, as claimed: for every temperature \<open>t\<close> above \<open>-237.7\<close> the dew point at humidity
  100 equals \<open>t\<close> within a small tolerance. At the double \<open>t = 2^70\<close> the sum
  \<open>237.7 + t\<close> rounds to \<open>t\<close>, the Magnus term is exactly \<open>17.27\<close>, and the last
  division raises ZeroDivisionError.
\<close>

theorem dew_point_divides_by_zero:
  "(- 237.7 :: real) < 2 ^ 70 \<and> is_double (2 ^ 70) \<and>
   dew_point_temperature cr_libm (2 ^ 70) 100 = Inl ZeroDivisionError"
proof -
  have "is_double (of_int 1 * 2 powi 70)" by (rule is_double_repr) simp_all
  then have "is_double (2 ^ 70)" by simp
  moreover have "(- 237.7 :: real) < 2 ^ 70" by simp
  ultimately show ?thesis using dew_point_at_2_70 by blast
qed

text \<open>
  C9, amended. For every air temperature \<open>t\<close> from \<open>-100\<close> to 100, the dew point at
  humidity 100 is a finite float within \<open>10^-11\<close> of \<open>t\<close>. This asks of the library that
  the logarithm of \<open>1.0\<close> is \<open>0.0\<close>.
\<close>

theorem dew_point_saturated:
  assumes "log_one L" and "- 100 \<le> t" and "t \<le> 100"
  shows "\<exists>r. dew_point_temperature L t 100 = Inr (Fin r) \<and> \<bar>r - t\<bar> \<le> 1 / 10 ^ 11"
  using saturated_dew_point_error [OF assms] u53_small by (meson order_trans)

theorem dew_point_saturated_witness:
  "log_one cr_libm \<and> - 100 \<le> (20 :: real) \<and> (20 :: real) \<le> 100 \<and>
   (\<exists>r. dew_point_temperature cr_libm 20 100 = Inr (Fin r) \<and> \<bar>r - 20\<bar> \<le> 1 / 10 ^ 11)"
  using dew_point_saturated [of cr_libm 20] log_one_cr by simp

section \<open>Record normaliser\<close>

text \<open>
  C7. A document with one well-formed hourly record for station \<open>12\<close>, date
  \<open>2024-01-01\<close>, hour code \<open>0300\<close>, air temperature \<open>5.00\<close> and humidity \<open>80\<close>
  normalises to exactly one observation. Its hour field is the two-character hour \<open>03\<close>,
  its timestamp has the hour 3 and reads \<open>2024-01-01T03:00:00\<close> in ISO format; its air
  temperature and humidity are what \<open>float()\<close> reads from \<open>5.00\<close> and \<open>80\<close>, that is 5
  and 80.
\<close>

theorem normalize_single_record:
  "cimis_json_to_records float_of_str str_other single_record_doc =
     Inr [\<lparr>station = JStr ''12'', date = JStr ''2024-01-01'', hour = ''03'',
           timestamp = \<lparr>dt_year = 2024, dt_month = 1, dt_day = 1,
                        dt_hour = 3, dt_minute = 0, dt_second = 0\<rparr>,
           air_temp_c = float_of_str ''5.00'', rel_hum = float_of_str ''80''\<rparr>] \<and>
   isoformat \<lparr>dt_year = 2024, dt_month = 1, dt_day = 1,
              dt_hour = 3, dt_minute = 0, dt_second = 0\<rparr> = ''2024-01-01T03:00:00'' \<and>
   parse_decimal ''5.00'' = Some 5 \<and> parse_decimal ''80'' = Some 80"
  by (simp add: single_record_doc_def normalise_unfold isoformat_examples [simplified]
        split: option.split)

section \<open>Cooling rate\<close>




section \<open>Risk classification\<close>


end
